theory Spec2Isabelle
  imports Complex_Main "HOL-Library.Multiset"
begin

section \<open>Strings and the runtime\<close>

text \<open>
  A string is a list of characters. The whitespace that \<open>trim\<close> and the class \<open>\s\<close> of a
  regular expression strip is modelled by its ASCII part: tab, line feed, vertical tab,
  form feed, carriage return and space. \<open>toLowerCase\<close> is modelled on the ASCII letters.
\<close>

definition js_whitespace :: "char \<Rightarrow> bool" where
  "js_whitespace c \<longleftrightarrow>
     c = CHR 0x09 \<or> c = CHR 0x0A \<or> c = CHR 0x0B \<or> c = CHR 0x0C \<or> c = CHR 0x0D \<or> c = CHR '' ''"

definition trim :: "string \<Rightarrow> string" where
  "trim s = rev (dropWhile js_whitespace (rev (dropWhile js_whitespace s)))"

definition lower_char :: "char \<Rightarrow> char" where
  "lower_char c =
     (let n = (of_char c :: nat) in if 65 \<le> n \<and> n \<le> 90 then char_of (n + 32) else c)"

definition toLowerCase :: "string \<Rightarrow> string" where
  "toLowerCase s = map lower_char s"

text \<open>\<open>xs.join(sep)\<close>.\<close>

fun join :: "string \<Rightarrow> string list \<Rightarrow> string" where
  "join sep [] = []"
| "join sep [x] = x"
| "join sep (x # y # ys) = x @ sep @ join sep (y # ys)"

text \<open>\<open>content.split(/\r?\n/)\<close>: a line feed, with the carriage return before it if there
  is one, separates two lines. The result is never empty: the empty text has one line.\<close>

fun split_lines :: "string \<Rightarrow> string list" where
  "split_lines [] = [[]]"
| "split_lines [c] = (if c = CHR 0x0A then [[], []] else [[c]])"
| "split_lines (c # d # cs) =
     (if c = CHR 0x0A then [] # split_lines (d # cs)
      else if c = CHR 0x0D \<and> d = CHR 0x0A then [] # split_lines cs
      else (case split_lines (d # cs) of
              l # ls \<Rightarrow> (c # l) # ls
            | [] \<Rightarrow> [[c]]))"

text \<open>The pieces of a text between whitespace characters; \<open>text.split(/\s+/)\<close> gives the
  same pieces but for empty ones, which every caller filters out.\<close>

fun split_ws :: "string \<Rightarrow> string list" where
  "split_ws [] = [[]]"
| "split_ws (c # cs) =
     (if js_whitespace c then [] # split_ws cs
      else (case split_ws cs of
              w # ws \<Rightarrow> (c # w) # ws
            | [] \<Rightarrow> [[c]]))"

text \<open>\<open>haystack.includes(token)\<close>: the token occurs as a substring.\<close>

fun starts_with :: "string \<Rightarrow> string \<Rightarrow> bool" where
  "starts_with s [] = True"
| "starts_with [] (c # cs) = False"
| "starts_with (d # ds) (c # cs) = (d = c \<and> starts_with ds cs)"

fun str_includes :: "string \<Rightarrow> string \<Rightarrow> bool" where
  "str_includes [] token = (token = [])"
| "str_includes (c # cs) token = (starts_with (c # cs) token \<or> str_includes cs token)"

text \<open>The decimal digits of a number, as a template literal prints it.\<close>

fun show_nat :: "nat \<Rightarrow> string" where
  "show_nat n =
     (if n < 10 then [char_of (48 + n)] else show_nat (n div 10) @ [char_of (48 + n mod 10)])"

text \<open>\<open>Array.from(new Set(xs))\<close>: the elements of \<open>xs\<close> in the order of their first
  occurrence.\<close>

definition set_add :: "'a list \<Rightarrow> 'a \<Rightarrow> 'a list" where
  "set_add acc x = (if x \<in> set acc then acc else acc @ [x])"

definition from_set :: "'a list \<Rightarrow> 'a list" where
  "from_set xs = foldl set_add [] xs"

section \<open>Numbers and errors\<close>

text \<open>
  A number of JavaScript is a double: a finite value, one of the two infinities, or
  \<open>NaN\<close>. The finite values are modelled by the reals (every finite double is one); the
  sign of zero is not modelled. Where a value of the program is finite by its type or
  its origin (a time in milliseconds, a count, a weight of the configuration, a field of
  a record that \<open>JSON.parse\<close> has read) it is a real or an integer; where it can be an
  infinity or \<open>NaN\<close> it is a \<open>number\<close>.

  The arithmetic of the runtime rounds a finite result to a double, or to an infinity
  when it overflows. The weighted sum of \<open>scoreItem\<close>, whose values a claim compares, takes
  the multiplication and the addition of finite numbers as parameters (\<open>num_ops\<close>), and
  \<open>Math.exp\<close> with them; \<open>exact_ops\<close> are operations that do not round. Everywhere else the
  exact operation stands for the rounded one. What an operation does with an infinity
  or with \<open>NaN\<close> is fixed by the standard of floating-point arithmetic and is defined
  below.
\<close>

datatype number = Num real | PosInf | NegInf | NaN

record num_ops =
  mul :: "real \<Rightarrow> real \<Rightarrow> number"
  add :: "real \<Rightarrow> real \<Rightarrow> number"
  expo :: "real \<Rightarrow> number"

text \<open>The sign of a number: \<open>v < 0\<close> and \<open>v > 0\<close> are false of \<open>NaN\<close>.\<close>

definition negative :: "number \<Rightarrow> bool" where
  "negative v = (case v of Num x \<Rightarrow> x < 0 | NegInf \<Rightarrow> True | _ \<Rightarrow> False)"

definition positive :: "number \<Rightarrow> bool" where
  "positive v = (case v of Num x \<Rightarrow> x > 0 | PosInf \<Rightarrow> True | _ \<Rightarrow> False)"

text \<open>\<open>a !== b\<close> on numbers: \<open>NaN\<close> differs from every number, itself included.\<close>

definition strict_neq :: "number \<Rightarrow> number \<Rightarrow> bool" where
  "strict_neq a b \<longleftrightarrow> a = NaN \<or> b = NaN \<or> a \<noteq> b"

text \<open>\<open>a * b\<close>: an infinity times zero is \<open>NaN\<close>; otherwise an infinite factor gives the
  infinity of the sign of the product.\<close>

definition times :: "num_ops \<Rightarrow> number \<Rightarrow> number \<Rightarrow> number" where
  "times R a b =
     (case (a, b) of
        (Num x, Num y) \<Rightarrow> mul R x y
      | (NaN, _) \<Rightarrow> NaN
      | (_, NaN) \<Rightarrow> NaN
      | _ \<Rightarrow>
          if a = Num 0 \<or> b = Num 0 then NaN
          else if positive a = positive b then PosInf else NegInf)"

text \<open>\<open>a + b\<close>: the sum of the two infinities is \<open>NaN\<close>.\<close>

definition plus :: "num_ops \<Rightarrow> number \<Rightarrow> number \<Rightarrow> number" where
  "plus R a b =
     (case (a, b) of
        (Num x, Num y) \<Rightarrow> add R x y
      | (NaN, _) \<Rightarrow> NaN
      | (_, NaN) \<Rightarrow> NaN
      | (PosInf, NegInf) \<Rightarrow> NaN
      | (NegInf, PosInf) \<Rightarrow> NaN
      | (PosInf, _) \<Rightarrow> PosInf
      | (_, PosInf) \<Rightarrow> PosInf
      | _ \<Rightarrow> NegInf)"

text \<open>\<open>a - b\<close>, where only the sign of the result is read. The difference of two finite
  doubles is zero only when they are equal, so the sign of the exact difference is the
  sign of the rounded one.\<close>

definition minus :: "number \<Rightarrow> number \<Rightarrow> number" where
  "minus a b =
     (case (a, b) of
        (Num x, Num y) \<Rightarrow> Num (x - y)
      | (NaN, _) \<Rightarrow> NaN
      | (_, NaN) \<Rightarrow> NaN
      | (PosInf, PosInf) \<Rightarrow> NaN
      | (NegInf, NegInf) \<Rightarrow> NaN
      | (PosInf, _) \<Rightarrow> PosInf
      | (NegInf, _) \<Rightarrow> NegInf
      | (_, PosInf) \<Rightarrow> NegInf
      | _ \<Rightarrow> PosInf)"


text \<open>Operations that do not round. \<open>Math.exp\<close> returns \<open>Infinity\<close> above the logarithm of
  the greatest double, which lies between 709 and 710; \<open>exact_ops\<close> put the bound at 710.\<close>

definition exact_ops :: num_ops where
  "exact_ops =
     \<lparr> mul = (\<lambda>a b. Num (a * b)), add = (\<lambda>a b. Num (a + b)),
       expo = (\<lambda>x. if x \<ge> 710 then PosInf else Num (exp x)) \<rparr>"

text \<open>
  An error that is thrown is an \<open>Error\<close> or a \<open>TypeError\<close> with a message, or an error of
  the file system with a \<open>code\<close> (\<open>EEXIST\<close>, \<open>ENOENT\<close>, \<open>EACCES\<close>, \<dots>).
\<close>

datatype js_error = Error string | TypeError string | Errno string

definition error_code :: "js_error \<Rightarrow> string option" where
  "error_code e = (case e of Errno c \<Rightarrow> Some c | _ \<Rightarrow> None)"

text \<open>What a function that can throw gives: its result, or the error it throws. It is
  \<open>Unmodelled\<close> where the program writes a property of a built-in object of the runtime,
  and what it does from there on is outside the model, and where it runs a part of the
  program that is not modelled.\<close>

datatype 'a outcome = Done 'a | Thrown js_error | Unmodelled

definition then_do :: "'a outcome \<Rightarrow> ('a \<Rightarrow> 'b outcome) \<Rightarrow> 'b outcome" where
  "then_do r f = (case r of Done v \<Rightarrow> f v | Thrown e \<Rightarrow> Thrown e | Unmodelled \<Rightarrow> Unmodelled)"

section \<open>Data model (schema.ts)\<close>

text \<open>
  JavaScript values that reach the store are JSON values. A number of a JSON text is
  finite: a real. A string is a list of characters. An object is an association list,
  read with \<open>map_of\<close> (a missing key is \<open>undefined\<close>).
\<close>

datatype json =
    JNull
  | JBool bool
  | JNum real
  | JStr string
  | JArr "json list"
  | JObj "(string \<times> json) list"

text \<open>
  \<open>interface MemoryItem\<close>. The field \<open>id\<close> is named \<open>item_id\<close>, since \<open>id\<close> is the
  identity function of HOL. \<open>summary\<close> and \<open>metadata\<close> are nullable: \<open>None\<close> is \<open>null\<close>.
\<close>

record MemoryItem =
  item_id :: string
  createdAt :: string
  updatedAt :: string
  scope :: string
  tags :: "string list"
  content :: string
  summary :: "string option"
  metadata :: "(string \<times> json) list option"
  importance :: real
  deleted :: bool

text \<open>
  \<open>Date.parse\<close> is a function of the JavaScript runtime: it maps a string to a time value
  in milliseconds, or to \<open>NaN\<close>. It is a parameter \<open>P\<close> of every function that calls it;
  \<open>None\<close> is \<open>NaN\<close>.
\<close>

type_synonym date_parse = "string \<Rightarrow> int option"

text \<open>\<open>interface MemoryPatch\<close>: every field is optional (\<open>None\<close>: not supplied).
  \<open>summary\<close> and \<open>metadata\<close> can be supplied as \<open>null\<close>: \<open>Some None\<close>.\<close>

record MemoryPatch =
  p_scope :: "string option"
  p_tags :: "string list option"
  p_content :: "string option"
  p_summary :: "string option option"
  p_metadata :: "(string \<times> json) list option option"
  p_importance :: "real option"
  p_deleted :: "bool option"

definition normalizeScope :: "string \<Rightarrow> string" where
  "normalizeScope s = trim s"

definition normalizeTag :: "string \<Rightarrow> string" where
  "normalizeTag tag = toLowerCase (trim tag)"

definition normalizeTags :: "string list \<Rightarrow> string list" where
  "normalizeTags ts = from_set (filter (\<lambda>tag. length tag > 0) (map normalizeTag ts))"

text \<open>\<open>clampImportance\<close>: \<open>None\<close> is a value that is not a number (\<open>undefined\<close>,
  \<open>null\<close>).\<close>

definition clampImportance :: "real option \<Rightarrow> real \<Rightarrow> real" where
  "clampImportance v fallback =
     (case v of
        None \<Rightarrow> fallback
      | Some x \<Rightarrow> if x < 0 then 0 else if x > 1 then 1 else x)"

definition isRecord :: "json \<Rightarrow> bool" where
  "isRecord v = (case v of JObj kvs \<Rightarrow> True | _ \<Rightarrow> False)"

text \<open>\<open>value[field]\<close>: \<open>None\<close> is \<open>undefined\<close>.\<close>

definition field :: "json \<Rightarrow> string \<Rightarrow> json option" where
  "field v k = (case v of JObj kvs \<Rightarrow> map_of kvs k | _ \<Rightarrow> None)"

definition requiredStringFields :: "string list" where
  "requiredStringFields = [''id'', ''createdAt'', ''updatedAt'', ''scope'', ''content'']"

definition is_nonblank_string :: "json option \<Rightarrow> bool" where
  "is_nonblank_string v = (case v of Some (JStr s) \<Rightarrow> length (trim s) \<noteq> 0 | _ \<Rightarrow> False)"

definition is_string_array :: "json option \<Rightarrow> bool" where
  "is_string_array v =
     (case v of
        Some (JArr ts) \<Rightarrow> \<not> list_ex (\<lambda>tag. case tag of JStr s \<Rightarrow> False | _ \<Rightarrow> True) ts
      | _ \<Rightarrow> False)"

definition validateMemoryItem :: "json \<Rightarrow> bool \<times> string list" where
  "validateMemoryItem v =
     (if \<not> isRecord v then (False, [''Memory item is not an object''])
      else
        let errors =
          concat (map (\<lambda>f. if \<not> is_nonblank_string (field v f)
                             then [''Invalid or missing '' @ f] else [])
                      requiredStringFields)
          @ (if \<not> is_string_array (field v ''tags'') then [''Invalid or missing tags''] else [])
          @ (if \<not> (case field v ''deleted'' of Some (JBool b) \<Rightarrow> True | _ \<Rightarrow> False)
             then [''Invalid or missing deleted flag''] else [])
          @ (if \<not> (case field v ''importance'' of Some (JNum x) \<Rightarrow> True | _ \<Rightarrow> False)
             then [''Invalid or missing importance''] else [])
          @ (if \<not> (case field v ''summary'' of
                       Some JNull \<Rightarrow> True | Some (JStr s) \<Rightarrow> True | _ \<Rightarrow> False)
             then [''Invalid summary''] else [])
          @ (if \<not> (case field v ''metadata'' of
                       Some JNull \<Rightarrow> True | Some (JObj kvs) \<Rightarrow> True | _ \<Rightarrow> False)
             then [''Invalid metadata''] else [])
        in (length errors = 0, errors))"

text \<open>The cast \<open>parsed as MemoryItem\<close> of a validated value: the record of its fields.
  Keys of the object that are no field of \<open>MemoryItem\<close> are not kept by the model.\<close>

definition as_MemoryItem :: "json \<Rightarrow> MemoryItem" where
  "as_MemoryItem v =
     \<lparr> item_id = (case field v ''id'' of Some (JStr s) \<Rightarrow> s | _ \<Rightarrow> []),
       createdAt = (case field v ''createdAt'' of Some (JStr s) \<Rightarrow> s | _ \<Rightarrow> []),
       updatedAt = (case field v ''updatedAt'' of Some (JStr s) \<Rightarrow> s | _ \<Rightarrow> []),
       scope = (case field v ''scope'' of Some (JStr s) \<Rightarrow> s | _ \<Rightarrow> []),
       tags = (case field v ''tags'' of
                 Some (JArr ts) \<Rightarrow> map (\<lambda>tag. case tag of JStr s \<Rightarrow> s | _ \<Rightarrow> []) ts
               | _ \<Rightarrow> []),
       content = (case field v ''content'' of Some (JStr s) \<Rightarrow> s | _ \<Rightarrow> []),
       summary = (case field v ''summary'' of Some (JStr s) \<Rightarrow> Some s | _ \<Rightarrow> None),
       metadata = (case field v ''metadata'' of Some (JObj kvs) \<Rightarrow> Some kvs | _ \<Rightarrow> None),
       importance = (case field v ''importance'' of Some (JNum x) \<Rightarrow> x | _ \<Rightarrow> 0),
       deleted = (case field v ''deleted'' of Some (JBool b) \<Rightarrow> b | _ \<Rightarrow> False) \<rparr>"

text \<open>The object that \<open>JSON.stringify(item)\<close> prints.\<close>

definition item_json :: "MemoryItem \<Rightarrow> json" where
  "item_json item =
     JObj [(''id'', JStr (item_id item)),
           (''createdAt'', JStr (createdAt item)),
           (''updatedAt'', JStr (updatedAt item)),
           (''scope'', JStr (scope item)),
           (''tags'', JArr (map JStr (tags item))),
           (''content'', JStr (content item)),
           (''summary'', (case summary item of None \<Rightarrow> JNull | Some t \<Rightarrow> JStr t)),
           (''metadata'', (case metadata item of None \<Rightarrow> JNull | Some kvs \<Rightarrow> JObj kvs)),
           (''importance'', JNum (importance item)),
           (''deleted'', JBool (deleted item))]"

text \<open>
  \<open>JSON.parse\<close> and \<open>JSON.stringify\<close> are functions of the runtime, parameters \<open>J\<close> and
  \<open>S\<close> of the functions that call them. \<open>JSON.parse\<close> returns a value (\<open>Inr\<close>) or throws
  a \<open>SyntaxError\<close> (\<open>Inl\<close> of its message).
\<close>

type_synonym json_parse = "string \<Rightarrow> string + json"
type_synonym json_stringify = "json \<Rightarrow> string"

section \<open>The log file (memory-store.ts)\<close>

text \<open>
  The file system is a map from paths to file contents. The functions below describe the
  runs in which every file-system call succeeds and the file lock is acquired; the lock
  itself is modelled in its own section. \<open>fs.readFile\<close> and \<open>fs.rename\<close> throw on a path
  that does not exist: every caller below has created the file before (\<open>ensureFile\<close>, or
  the write of the temporary file), so the branch \<open>None\<close> of \<open>readFile\<close> and \<open>rename\<close> is
  never taken.
\<close>

type_synonym filesystem = "string \<rightharpoonup> string"

definition ensureFile :: "filesystem \<Rightarrow> string \<Rightarrow> filesystem" where
  "ensureFile fs filePath = (case fs filePath of None \<Rightarrow> fs(filePath \<mapsto> []) | Some c \<Rightarrow> fs)"

definition readFile :: "filesystem \<Rightarrow> string \<Rightarrow> string" where
  "readFile fs filePath = (case fs filePath of None \<Rightarrow> [] | Some c \<Rightarrow> c)"

definition rename :: "filesystem \<Rightarrow> string \<Rightarrow> string \<Rightarrow> filesystem" where
  "rename fs oldPath newPath =
     (case fs oldPath of None \<Rightarrow> fs | Some c \<Rightarrow> (fs(newPath \<mapsto> c))(oldPath := None))"

record ReadStats =
  totalLines :: nat
  emptyLines :: nat
  validLines :: nat
  invalidLines :: nat
  bytes :: nat

record ReadResult =
  r_items :: "MemoryItem list"
  r_errors :: "string list"
  r_stats :: ReadStats

text \<open>The result of \<open>parseLine\<close>: \<open>{ item, error? }\<close>.\<close>

record ParsedLine =
  pl_item :: "MemoryItem option"
  pl_error :: "string option"

text \<open>\<open>parseLine\<close> pushes its message on the array \<open>errors\<close> of the caller: the model
  returns the array with the result.\<close>

definition parseLine ::
  "json_parse \<Rightarrow> string \<Rightarrow> nat \<Rightarrow> string list \<Rightarrow> ParsedLine \<times> string list"
where
  "parseLine J line lineNumber errors =
     (if length (trim line) = 0 then (\<lparr> pl_item = None, pl_error = None \<rparr>, errors)
      else
        case J line of
          Inr parsed \<Rightarrow>
            (let (ok, verrors) = validateMemoryItem parsed in
             if \<not> ok then
               (let message = ''Line '' @ show_nat lineNumber @ '': '' @ join ''; '' verrors
                in (\<lparr> pl_item = None, pl_error = Some message \<rparr>, errors @ [message]))
             else (\<lparr> pl_item = Some (as_MemoryItem parsed), pl_error = None \<rparr>, errors))
        | Inl thrown \<Rightarrow>
            (let message = ''Line '' @ show_nat lineNumber @ '': '' @ thrown
             in (\<lparr> pl_item = None, pl_error = Some message \<rparr>, errors @ [message])))"

text \<open>The loop of \<open>readAllItems\<close> over \<open>lines[i]\<close>, from index \<open>i\<close> on. An object is
  truthy; a string is truthy when it is not empty.\<close>

fun read_loop :: "json_parse \<Rightarrow> string list \<Rightarrow> nat \<Rightarrow> ReadResult \<Rightarrow> ReadResult" where
  "read_loop J [] i r = r"
| "read_loop J (line # rest) i r =
     (if length (trim line) = 0 then
        read_loop J rest (i + 1)
          (r\<lparr> r_stats := (r_stats r)\<lparr> emptyLines := emptyLines (r_stats r) + 1 \<rparr> \<rparr>)
      else
        let (parsed, errors') = parseLine J line (i + 1) (r_errors r);
            r1 = r\<lparr> r_errors := errors' \<rparr>
        in read_loop J rest (i + 1)
             (case pl_item parsed of
                Some item \<Rightarrow>
                  r1\<lparr> r_items := r_items r1 @ [item],
                      r_stats := (r_stats r1)\<lparr> validLines := validLines (r_stats r1) + 1 \<rparr> \<rparr>
              | None \<Rightarrow>
                  (case pl_error parsed of
                     Some message \<Rightarrow>
                       if message \<noteq> [] then
                         r1\<lparr> r_stats := (r_stats r1)\<lparr> invalidLines := invalidLines (r_stats r1) + 1 \<rparr> \<rparr>
                       else r1
                   | None \<Rightarrow> r1)))"

definition readAllItems :: "json_parse \<Rightarrow> filesystem \<Rightarrow> string \<Rightarrow> ReadResult \<times> filesystem" where
  "readAllItems J fs memoryFile =
     (let fs1 = ensureFile fs memoryFile;
          content = readFile fs1 memoryFile;
          lines = split_lines content;
          r0 = \<lparr> r_items = [], r_errors = [],
                 r_stats = \<lparr> totalLines = length lines, emptyLines = 0, validLines = 0,
                             invalidLines = 0, bytes = length content \<rparr> \<rparr>
      in (read_loop J lines 0 r0, fs1))"

section \<open>Latest-record resolution (memory-store.ts)\<close>

text \<open>
  A JavaScript \<open>Map\<close> keeps its keys in insertion order; \<open>set\<close> on a key that is
  present replaces the value and keeps the key's place. \<open>Array.from(m.values())\<close> lists
  the values in that order.
\<close>

type_synonym ('k, 'v) js_map = "('k \<times> 'v) list"

fun map_set :: "('k, 'v) js_map \<Rightarrow> 'k \<Rightarrow> 'v \<Rightarrow> ('k, 'v) js_map" where
  "map_set [] k v = [(k, v)]"
| "map_set ((k', v') # m) k v =
     (if k' = k then (k, v) # m else (k', v') # map_set m k v)"

definition map_get :: "('k, 'v) js_map \<Rightarrow> 'k \<Rightarrow> 'v option" where
  "map_get m k = map_of m k"

definition map_values :: "('k, 'v) js_map \<Rightarrow> 'v list" where
  "map_values m = map snd m"

definition getTimestamp :: "date_parse \<Rightarrow> MemoryItem \<Rightarrow> int" where
  "getTimestamp P item =
     (case P (updatedAt item) of
        Some updated \<Rightarrow> updated
      | None \<Rightarrow> (case P (createdAt item) of Some created \<Rightarrow> created | None \<Rightarrow> 0))"

text \<open>The body of the \<open>for\<close> loop of \<open>selectLatestItems\<close>: one item against the map.\<close>

definition latest_step ::
  "date_parse \<Rightarrow> (string, MemoryItem) js_map \<Rightarrow> MemoryItem \<Rightarrow> (string, MemoryItem) js_map"
where
  "latest_step P latestById item =
     (case map_get latestById (item_id item) of
        None \<Rightarrow> map_set latestById (item_id item) item
      | Some current \<Rightarrow>
          if getTimestamp P item \<ge> getTimestamp P current
          then map_set latestById (item_id item) item
          else latestById)"

definition selectLatestItems :: "date_parse \<Rightarrow> MemoryItem list \<Rightarrow> MemoryItem list" where
  "selectLatestItems P items = map_values (foldl (latest_step P) [] items)"

definition readLatestItems ::
  "date_parse \<Rightarrow> json_parse \<Rightarrow> filesystem \<Rightarrow> string \<Rightarrow> ReadResult \<times> filesystem"
where
  "readLatestItems P J fs memoryFile =
     (let (result, fs1) = readAllItems J fs memoryFile
      in (result\<lparr> r_items := selectLatestItems P (r_items result) \<rparr>, fs1))"

section \<open>Appending and updating (memory-store.ts)\<close>

definition appendItem :: "json_stringify \<Rightarrow> filesystem \<Rightarrow> string \<Rightarrow> MemoryItem \<Rightarrow> filesystem" where
  "appendItem S fs memoryFile item =
     (let fs1 = ensureFile fs memoryFile;
          line = S (item_json item) @ [CHR 0x0A]
      in fs1(memoryFile \<mapsto> readFile fs1 memoryFile @ line))"

text \<open>The object literal of \<open>updateMemoryItem\<close>: the spread of \<open>existing\<close> and \<open>patch\<close>,
  then the fields the literal sets itself. \<open>patch.scope ? \<dots>\<close> is a test of truthiness:
  a string is truthy when it is not empty, an array always.\<close>

definition merge_patch :: "string \<Rightarrow> MemoryItem \<Rightarrow> MemoryPatch \<Rightarrow> MemoryItem" where
  "merge_patch nowIso existing patch =
     \<lparr> item_id = item_id existing,
       createdAt = createdAt existing,
       updatedAt = nowIso,
       scope = (case p_scope patch of
                  Some s \<Rightarrow> if s \<noteq> [] then normalizeScope s else scope existing
                | None \<Rightarrow> scope existing),
       tags = (case p_tags patch of Some ts \<Rightarrow> normalizeTags ts | None \<Rightarrow> tags existing),
       content = (case p_content patch of Some c \<Rightarrow> c | None \<Rightarrow> content existing),
       summary = (case p_summary patch of Some v \<Rightarrow> v | None \<Rightarrow> summary existing),
       metadata = (case p_metadata patch of Some v \<Rightarrow> v | None \<Rightarrow> metadata existing),
       importance = (case p_importance patch of
                       Some v \<Rightarrow> clampImportance (Some v) (importance existing)
                     | None \<Rightarrow> importance existing),
       deleted = (case p_deleted patch of Some b \<Rightarrow> b | None \<Rightarrow> deleted existing) \<rparr>"

text \<open>\<open>updateMemoryItem\<close> returns the updated item, or \<open>null\<close> (\<open>None\<close>) when the latest
  view has no item of that id. \<open>nowIso\<close> is \<open>new Date().toISOString()\<close>.\<close>

definition updateMemoryItem ::
  "date_parse \<Rightarrow> json_parse \<Rightarrow> json_stringify \<Rightarrow> string \<Rightarrow> filesystem \<Rightarrow> string \<Rightarrow> string
     \<Rightarrow> MemoryPatch \<Rightarrow> MemoryItem option \<times> filesystem"
where
  "updateMemoryItem P J S nowIso fs memoryFile ident patch =
     (let (latest, fs1) = readLatestItems P J fs memoryFile in
      case find (\<lambda>item. item_id item = ident) (r_items latest) of
        None \<Rightarrow> (None, fs1)
      | Some existing \<Rightarrow>
          (let updated = merge_patch nowIso existing patch
           in (Some updated, appendItem S fs1 memoryFile updated)))"

definition getMemoryItem ::
  "date_parse \<Rightarrow> json_parse \<Rightarrow> filesystem \<Rightarrow> string \<Rightarrow> string \<Rightarrow> MemoryItem option \<times> filesystem"
where
  "getMemoryItem P J fs memoryFile ident =
     (let (latest, fs1) = readLatestItems P J fs memoryFile
      in (find (\<lambda>item. item_id item = ident) (r_items latest), fs1))"

section \<open>Compaction and repair (memory-store.ts)\<close>

text \<open>The text of a rewritten log: one line for each item, each ended by a line feed
  (\<open>lines.join("\n") + "\n"\<close>).\<close>

definition serialize_items :: "json_stringify \<Rightarrow> MemoryItem list \<Rightarrow> string" where
  "serialize_items S xs = join [CHR 0x0A] (map (\<lambda>item. S (item_json item)) xs) @ [CHR 0x0A]"

text \<open>The three steps of a rewrite, shared by compaction and repair: write the temporary
  file, rename the log to the backup, rename the temporary file to the log. \<open>now\<close> is
  \<open>Date.now()\<close>.\<close>

definition rewrite_log :: "json_stringify \<Rightarrow> nat \<Rightarrow> filesystem \<Rightarrow> string \<Rightarrow> MemoryItem list \<Rightarrow> filesystem" where
  "rewrite_log S now fs memoryFile outputItems =
     (let tempFile = memoryFile @ ''.tmp'';
          backupFile = memoryFile @ ''.bak.'' @ show_nat now;
          fs1 = fs(tempFile \<mapsto> serialize_items S outputItems);
          fs2 = rename fs1 memoryFile backupFile
      in rename fs2 tempFile memoryFile)"

definition compactMemoryFile ::
  "date_parse \<Rightarrow> json_parse \<Rightarrow> json_stringify \<Rightarrow> nat \<Rightarrow> filesystem \<Rightarrow> string \<Rightarrow> filesystem"
where
  "compactMemoryFile P J S now fs memoryFile =
     (let (latest, fs1) = readLatestItems P J fs memoryFile
      in rewrite_log S now fs1 memoryFile (r_items latest))"

record RepairOptions =
  o_compact :: "bool option"
  o_quarantine :: "bool option"

record CorruptEntry =
  ce_lineNumber :: nat
  ce_error :: string
  ce_raw :: string

record RepairResult =
  repaired :: bool
  compacted :: bool
  rr_errors :: "string list"
  rr_stats :: ReadStats
  quarantinedFile :: "string option"
  quarantinedLines :: nat

definition entry_json :: "CorruptEntry \<Rightarrow> json" where
  "entry_json e =
     JObj [(''lineNumber'', JNum (real (ce_lineNumber e))),
           (''error'', JStr (ce_error e)),
           (''raw'', JStr (ce_raw e))]"

text \<open>The loop of \<open>repairMemoryFile\<close>: the loop of \<open>readAllItems\<close>, which also collects
  the corrupt entries.\<close>

fun repair_loop ::
  "json_parse \<Rightarrow> string list \<Rightarrow> nat \<Rightarrow> ReadResult \<times> CorruptEntry list
     \<Rightarrow> ReadResult \<times> CorruptEntry list"
where
  "repair_loop J [] i (r, corruptEntries) = (r, corruptEntries)"
| "repair_loop J (rawLine # rest) i (r, corruptEntries) =
     (if length (trim rawLine) = 0 then
        repair_loop J rest (i + 1)
          (r\<lparr> r_stats := (r_stats r)\<lparr> emptyLines := emptyLines (r_stats r) + 1 \<rparr> \<rparr>,
           corruptEntries)
      else
        let (parsed, errors') = parseLine J rawLine (i + 1) (r_errors r);
            r1 = r\<lparr> r_errors := errors' \<rparr>
        in repair_loop J rest (i + 1)
             (case pl_item parsed of
                Some item \<Rightarrow>
                  (r1\<lparr> r_items := r_items r1 @ [item],
                       r_stats := (r_stats r1)\<lparr> validLines := validLines (r_stats r1) + 1 \<rparr> \<rparr>,
                   corruptEntries)
              | None \<Rightarrow>
                  (case pl_error parsed of
                     Some message \<Rightarrow>
                       if message \<noteq> [] then
                         (r1\<lparr> r_stats := (r_stats r1)\<lparr> invalidLines := invalidLines (r_stats r1) + 1 \<rparr> \<rparr>,
                          corruptEntries @
                            [\<lparr> ce_lineNumber = i + 1, ce_error = message, ce_raw = rawLine \<rparr>])
                       else (r1, corruptEntries)
                   | None \<Rightarrow> (r1, corruptEntries))))"

text \<open>\<open>repairMemoryFile\<close>. \<open>nowQ\<close> and \<open>nowB\<close> are the two readings of \<open>Date.now()\<close>, for
  the name of the quarantine file and of the backup.\<close>

definition repairMemoryFile ::
  "date_parse \<Rightarrow> json_parse \<Rightarrow> json_stringify \<Rightarrow> nat \<Rightarrow> nat \<Rightarrow> filesystem \<Rightarrow> string
     \<Rightarrow> RepairOptions \<Rightarrow> RepairResult \<times> filesystem"
where
  "repairMemoryFile P J S nowQ nowB fs memoryFile options =
     (let compact_opt = (case o_compact options of Some b \<Rightarrow> b | None \<Rightarrow> False);
          quarantine_opt = (case o_quarantine options of Some b \<Rightarrow> b | None \<Rightarrow> True);
          fs1 = ensureFile fs memoryFile;
          content = readFile fs1 memoryFile;
          lines = split_lines content;
          r0 = \<lparr> r_items = [], r_errors = [],
                 r_stats = \<lparr> totalLines = length lines, emptyLines = 0, validLines = 0,
                             invalidLines = 0, bytes = length content \<rparr> \<rparr>;
          (r, corruptEntries) = repair_loop J lines 0 (r0, []);
          is_repaired = (invalidLines (r_stats r) > 0);
          is_compacted = (compact_opt \<and> length (r_items r) > 0);
          shouldWrite = (is_repaired \<or> is_compacted);
          qfile = (if quarantine_opt \<and> length corruptEntries > 0
                   then Some (memoryFile @ ''.corrupt.'' @ show_nat nowQ @ ''.jsonl'')
                   else None);
          fs2 = (case qfile of
                   Some q \<Rightarrow>
                     fs1(q \<mapsto> join [CHR 0x0A] (map (\<lambda>e. S (entry_json e)) corruptEntries)
                                 @ [CHR 0x0A])
                 | None \<Rightarrow> fs1);
          fs3 = (if shouldWrite then
                   rewrite_log S nowB fs2 memoryFile
                     (if is_compacted then selectLatestItems P (r_items r) else r_items r)
                 else fs2)
      in (\<lparr> repaired = is_repaired, compacted = is_compacted, rr_errors = r_errors r,
            rr_stats = r_stats r, quarantinedFile = qfile,
            quarantinedLines = length corruptEntries \<rparr>, fs3))"

section \<open>Sorting an array\<close>

text \<open>
  \<open>Array.prototype.sort(cmp)\<close> is a function of the runtime. The comparator returns a
  number: negative when its first argument goes first, positive when its second does.
  The language fixes the result where the comparator is consistent for the elements of
  the array: the sort is stable, so the result is the one sorted permutation that keeps
  the elements that compare equal in their order. Insertion sort, \<open>stable_sort\<close>,
  computes it. The language reads a result \<open>NaN\<close> of the comparator as zero. Where the
  comparator is not consistent, as it is when it returns \<open>NaN\<close> for an element with each
  of two others that it tells apart, the language leaves the order to the
  implementation.

  So the sort is a parameter \<open>srt\<close> of every function that calls it, and \<open>conforms\<close> states
  what the language says of one call.
\<close>

type_synonym 'a comparator = "'a \<Rightarrow> 'a \<Rightarrow> number"

type_synonym 'a array_sort = "'a comparator \<Rightarrow> 'a list \<Rightarrow> 'a list"

definition goes_after :: "'a comparator \<Rightarrow> 'a \<Rightarrow> 'a \<Rightarrow> bool" where
  "goes_after cmp x y = positive (cmp x y)"

fun stable_insert :: "'a comparator \<Rightarrow> 'a \<Rightarrow> 'a list \<Rightarrow> 'a list" where
  "stable_insert cmp x [] = [x]"
| "stable_insert cmp x (y # ys) =
     (if goes_after cmp x y then y # stable_insert cmp x ys else x # y # ys)"

definition stable_sort :: "'a array_sort" where
  "stable_sort cmp xs = foldr (stable_insert cmp) xs []"

text \<open>A comparator is consistent for the elements of an array when it never returns
  \<open>NaN\<close> for two of them and orders them as a total preorder does: an element is equal to
  itself, \<open>a\<close> is before \<open>b\<close> exactly when \<open>b\<close> is after \<open>a\<close>, and not being after is
  transitive. The language asks less of a consistent comparator, which may return \<open>NaN\<close>
  where it may return zero; so \<open>conforms\<close> asks of the sort no more than the language
  does.\<close>

definition consistent :: "'a comparator \<Rightarrow> 'a list \<Rightarrow> bool" where
  "consistent cmp xs \<longleftrightarrow>
     (\<forall>a \<in> set xs. \<forall>b \<in> set xs.
        cmp a b \<noteq> NaN \<and> \<not> negative (cmp a a) \<and> \<not> positive (cmp a a) \<and>
        (negative (cmp a b) \<longleftrightarrow> positive (cmp b a))) \<and>
     (\<forall>a \<in> set xs. \<forall>b \<in> set xs. \<forall>c \<in> set xs.
        \<not> positive (cmp a b) \<and> \<not> positive (cmp b c) \<longrightarrow> \<not> positive (cmp a c))"

definition conforms :: "'a array_sort \<Rightarrow> 'a comparator \<Rightarrow> 'a list \<Rightarrow> bool" where
  "conforms srt cmp xs \<longleftrightarrow> (consistent cmp xs \<longrightarrow> srt cmp xs = stable_sort cmp xs)"

text \<open>
  The sort of V8, the engine of Node.js, on an array of fewer than 64 elements: it
  takes the longest run at the start of the array that is ascending, or strictly
  descending and then reversed, and inserts each of the other elements into the sorted
  part at the place that a binary search finds. It reads a result \<open>NaN\<close> of the
  comparator as zero, and tests every result for \<open>order < 0\<close> only.
\<close>

fun ascending_run :: "'a comparator \<Rightarrow> 'a \<Rightarrow> 'a list \<Rightarrow> 'a list \<times> 'a list" where
  "ascending_run cmp previous [] = ([], [])"
| "ascending_run cmp previous (x # xs) =
     (if negative (cmp x previous) then ([], x # xs)
      else let (run, rest) = ascending_run cmp x xs in (x # run, rest))"

fun descending_run :: "'a comparator \<Rightarrow> 'a \<Rightarrow> 'a list \<Rightarrow> 'a list \<times> 'a list" where
  "descending_run cmp previous [] = ([], [])"
| "descending_run cmp previous (x # xs) =
     (if \<not> negative (cmp x previous) then ([], x # xs)
      else let (run, rest) = descending_run cmp x xs in (x # run, rest))"

text \<open>\<open>CountAndMakeRun\<close>: the run, in ascending order, and the elements after it.\<close>

fun count_run :: "'a comparator \<Rightarrow> 'a list \<Rightarrow> 'a list \<times> 'a list" where
  "count_run cmp (x0 # x1 # xs) =
     (if negative (cmp x1 x0)
      then let (run, rest) = descending_run cmp x1 xs in (rev (x0 # x1 # run), rest)
      else let (run, rest) = ascending_run cmp x1 xs in (x0 # x1 # run, rest))"
| "count_run cmp xs = (xs, [])"

text \<open>The binary search of \<open>BinaryInsertionSort\<close> for the place of \<open>pivot\<close> in the sorted
  part of the array, between \<open>left\<close> and \<open>right\<close>.\<close>

function insertion_point :: "'a comparator \<Rightarrow> 'a \<Rightarrow> 'a list \<Rightarrow> nat \<Rightarrow> nat \<Rightarrow> nat" where
  "insertion_point cmp pivot sorted_part left right =
     (if left < right then
        (if negative (cmp pivot (sorted_part ! (left + (right - left) div 2)))
         then insertion_point cmp pivot sorted_part left (left + (right - left) div 2)
         else insertion_point cmp pivot sorted_part (left + (right - left) div 2 + 1) right)
      else left)"
  by pat_completeness auto

termination insertion_point
  by (relation "measure (\<lambda>(cmp, pivot, sorted_part, left, right). right - left)") auto

declare insertion_point.simps [simp del]

definition binary_insert :: "'a comparator \<Rightarrow> 'a list \<Rightarrow> 'a \<Rightarrow> 'a list" where
  "binary_insert cmp sorted_part pivot =
     (let k = insertion_point cmp pivot sorted_part 0 (length sorted_part)
      in take k sorted_part @ pivot # drop k sorted_part)"

definition v8_sort :: "'a array_sort" where
  "v8_sort cmp xs = (let (run, rest) = count_run cmp xs in foldl (binary_insert cmp) run rest)"

text \<open>\<open>xs.slice(0, n)\<close>: a negative \<open>n\<close> counts from the end.\<close>

definition slice0 :: "'a list \<Rightarrow> int \<Rightarrow> 'a list" where
  "slice0 xs n = (if n < 0 then take (nat (int (length xs) + n)) xs else take (nat n) xs)"

section \<open>Retrieval (retriever.ts)\<close>

record SearchQuery =
  q_scope :: "string option"
  q_tags :: "string list option"
  q_text :: "string option"
  q_limit :: "real option"
  q_includeDeleted :: "bool option"
  q_now :: "int option"

record ScoredResult =
  sr_item :: MemoryItem
  sr_score :: number

text \<open>\<open>interface ScoringConfig\<close>: the weights \<open>scope\<close>, \<open>tag\<close>, \<open>recency\<close>, \<open>importance\<close>
  and \<open>text\<close> (with the prefix \<open>w_\<close>, since the items have fields of these names). The
  configuration is read from a JSON file: its numbers are finite.\<close>

record ScoringConfig =
  w_scope :: real
  w_tag :: real
  w_recency :: real
  w_importance :: real
  w_text :: real
  halfLifeDays :: real

definition tokenize :: "string \<Rightarrow> string list" where
  "tokenize t = filter (\<lambda>token. length token > 0) (map trim (split_ws (toLowerCase t)))"

text \<open>\<open>recencyScore\<close>: \<open>Math.exp\<close> is \<open>expo R\<close>. Its result is \<open>Infinity\<close> for an item that
  was updated long enough after the reference time.\<close>

definition recencyScore :: "num_ops \<Rightarrow> date_parse \<Rightarrow> MemoryItem \<Rightarrow> real \<Rightarrow> int \<Rightarrow> number" where
  "recencyScore R P item halfLife now =
     (if halfLife \<le> 0 then Num 1
      else case P (updatedAt item) of
             None \<Rightarrow> Num 0
           | Some updated \<Rightarrow>
               (let ageDays = real_of_int (now - updated) / (1000 * 60 * 60 * 24)
                in expo R (- ageDays / halfLife)))"

definition textScore :: "MemoryItem \<Rightarrow> string list \<Rightarrow> real" where
  "textScore item tokens =
     (if length tokens = 0 then 0
      else
        let haystack =
              toLowerCase (content item @ '' '' @ (case summary item of None \<Rightarrow> [] | Some t \<Rightarrow> t));
            matches = length (filter (\<lambda>token. str_includes haystack token) tokens)
        in real matches / real (length tokens))"

definition tagScore :: "MemoryItem \<Rightarrow> string list \<Rightarrow> real" where
  "tagScore item ts =
     (if length ts = 0 then 0
      else
        let tagSet = set (map toLowerCase (tags item));
            matches = length (filter (\<lambda>tag. toLowerCase tag \<in> tagSet) ts)
        in real matches / real (length ts))"

text \<open>The constants \<open>now\<close>, \<open>scopeScore\<close>, \<open>tags\<close> and \<open>tokens\<close> of \<open>scoreItem\<close>. \<open>clock\<close>
  is \<open>new Date()\<close>, read when the query has no \<open>now\<close>. \<open>query.scope ? \<dots>\<close> and
  \<open>query.text ? \<dots>\<close> test for a string that is not empty.\<close>

definition query_now :: "int \<Rightarrow> SearchQuery \<Rightarrow> int" where
  "query_now clock query = (case q_now query of Some n \<Rightarrow> n | None \<Rightarrow> clock)"

definition scopeScore :: "SearchQuery \<Rightarrow> MemoryItem \<Rightarrow> real" where
  "scopeScore query item =
     (case q_scope query of
        Some s \<Rightarrow> if s \<noteq> [] then (if scope item = s then 1 else 0) else 0
      | None \<Rightarrow> 0)"

definition query_tags :: "SearchQuery \<Rightarrow> string list" where
  "query_tags query = (case q_tags query of Some t \<Rightarrow> t | None \<Rightarrow> [])"

definition query_tokens :: "SearchQuery \<Rightarrow> string list" where
  "query_tokens query =
     (case q_text query of
        Some t \<Rightarrow> if t \<noteq> [] then tokenize t else []
      | None \<Rightarrow> [])"

text \<open>\<open>scoreItem\<close>: \<open>a + b + c + d + e\<close> is \<open>(((a + b) + c) + d) + e\<close>. Four of the five
  products have finite factors; the recency can be \<open>Infinity\<close>, and its product with a
  weight of zero is \<open>NaN\<close>.\<close>

definition scoreItem ::
  "num_ops \<Rightarrow> date_parse \<Rightarrow> int \<Rightarrow> MemoryItem \<Rightarrow> SearchQuery \<Rightarrow> ScoringConfig \<Rightarrow> number"
where
  "scoreItem R P clock item query config =
     plus R
       (plus R
          (plus R
             (plus R (mul R (w_scope config) (scopeScore query item))
                     (mul R (w_tag config) (tagScore item (query_tags query))))
             (times R (Num (w_recency config))
                      (recencyScore R P item (halfLifeDays config) (query_now clock query))))
          (mul R (w_importance config) (importance item)))
       (mul R (w_text config) (textScore item (query_tokens query)))"

text \<open>The number that \<open>Date.parse\<close> returns.\<close>

definition time_value :: "int option \<Rightarrow> number" where
  "time_value t = (case t of Some ms \<Rightarrow> Num (real_of_int ms) | None \<Rightarrow> NaN)"

text \<open>The comparator of \<open>searchMemory\<close>.\<close>

definition search_compare :: "date_parse \<Rightarrow> ScoredResult comparator" where
  "search_compare P a b =
     (if strict_neq (sr_score b) (sr_score a) then minus (sr_score b) (sr_score a)
      else
        let aTime = time_value (P (updatedAt (sr_item a)));
            bTime = time_value (P (updatedAt (sr_item b)))
        in minus bTime aTime)"

text \<open>The array \<open>filtered\<close> of \<open>searchMemory\<close>.\<close>

definition search_filtered :: "MemoryItem list \<Rightarrow> SearchQuery \<Rightarrow> MemoryItem list" where
  "search_filtered xs query =
     filter (\<lambda>item. if q_includeDeleted query = Some True then True else \<not> deleted item) xs"

text \<open>The array \<open>results\<close> of \<open>searchMemory\<close>, before and after the sort.\<close>

definition search_scored ::
  "num_ops \<Rightarrow> date_parse \<Rightarrow> int \<Rightarrow> MemoryItem list \<Rightarrow> SearchQuery \<Rightarrow> ScoringConfig
     \<Rightarrow> ScoredResult list"
where
  "search_scored R P clock xs query config =
     (let now = query_now clock query;
          filtered = search_filtered xs query
      in map (\<lambda>item. \<lparr> sr_item = item,
                        sr_score = scoreItem R P clock item (query\<lparr> q_now := Some now \<rparr>) config \<rparr>)
             filtered)"

definition search_ranked ::
  "ScoredResult array_sort \<Rightarrow> num_ops \<Rightarrow> date_parse \<Rightarrow> int \<Rightarrow> MemoryItem list \<Rightarrow> SearchQuery
     \<Rightarrow> ScoringConfig \<Rightarrow> ScoredResult list"
where
  "search_ranked srt R P clock xs query config =
     srt (search_compare P) (search_scored R P clock xs query config)"

text \<open>\<open>searchMemory\<close>. A limit is used when it is truthy (not zero) and positive.\<close>

definition searchMemory ::
  "ScoredResult array_sort \<Rightarrow> num_ops \<Rightarrow> date_parse \<Rightarrow> int \<Rightarrow> MemoryItem list \<Rightarrow> SearchQuery
     \<Rightarrow> ScoringConfig \<Rightarrow> ScoredResult list"
where
  "searchMemory srt R P clock xs query config =
     (let results = search_ranked srt R P clock xs query config;
          limit = (case q_limit query of
                     Some l \<Rightarrow> if l \<noteq> 0 \<and> l > 0 then l else real (length results)
                   | None \<Rightarrow> real (length results))
      in slice0 results (\<lfloor>limit\<rfloor>))"

section \<open>The derived index (indexer.ts)\<close>

text \<open>
  A \<open>Record<string, string[]>\<close> is an object: a map from the keys it owns to arrays. The
  order in which an object enumerates its keys is not part of the value. A key that was
  deleted is \<open>None\<close>.

  The object inherits from \<open>Object.prototype\<close>. A lookup \<open>b[k]\<close> of a key that the object
  does not own finds the property of that name of \<open>Object.prototype\<close> when there is one:
  a function, or for \<open>__proto__\<close> the prototype itself. Such a value is truthy and has no
  method \<open>push\<close>.
\<close>

type_synonym buckets = "string \<rightharpoonup> string list"

definition object_prototype_keys :: "string list" where
  "object_prototype_keys =
     [''constructor'', ''__defineGetter__'', ''__defineSetter__'', ''hasOwnProperty'',
      ''__lookupGetter__'', ''__lookupSetter__'', ''isPrototypeOf'', ''propertyIsEnumerable'',
      ''toString'', ''valueOf'', ''__proto__'', ''toLocaleString'']"

record MemoryIndex =
  version :: nat
  idx_updatedAt :: string
  byScope :: buckets
  byTag :: buckets
  byScopeTag :: "string \<rightharpoonup> buckets"

definition MEMORY_INDEX_VERSION :: nat where
  "MEMORY_INDEX_VERSION = 1"

definition createEmptyIndex :: "string \<Rightarrow> MemoryIndex" where
  "createEmptyIndex nowIso =
     \<lparr> version = MEMORY_INDEX_VERSION, idx_updatedAt = nowIso,
       byScope = Map.empty, byTag = Map.empty, byScopeTag = Map.empty \<rparr>"

text \<open>
  The index file is absent, or it holds a text that \<open>JSON.parse\<close> rejects or reads as a
  value that is no object (\<open>Unreadable\<close>), or it holds a document of the type
  \<open>MemoryIndex\<close>, with any version.
\<close>

datatype index_file = Absent | Unreadable | Stored MemoryIndex

text \<open>\<open>ensureIndexFile\<close> writes an empty index where there is no file. The arguments
  \<open>nowEnsure\<close>, \<open>nowLoad\<close> and \<open>nowSave\<close> are the readings \<open>new Date().toISOString()\<close> of the
  clock.\<close>

definition ensureIndexFile :: "string \<Rightarrow> index_file \<Rightarrow> index_file" where
  "ensureIndexFile nowEnsure file =
     (case file of Absent \<Rightarrow> Stored (createEmptyIndex nowEnsure) | _ \<Rightarrow> file)"

definition loadIndex :: "string \<Rightarrow> string \<Rightarrow> index_file \<Rightarrow> MemoryIndex \<times> index_file" where
  "loadIndex nowEnsure nowLoad file =
     (let file1 = ensureIndexFile nowEnsure file
      in (case file1 of
            Stored parsed \<Rightarrow>
              if version parsed \<noteq> MEMORY_INDEX_VERSION then createEmptyIndex nowLoad else parsed
          | _ \<Rightarrow> createEmptyIndex nowLoad,
          file1))"

text \<open>\<open>saveIndex\<close> overwrites the file, whatever it held.\<close>

definition saveIndex :: "string \<Rightarrow> MemoryIndex \<Rightarrow> index_file" where
  "saveIndex nowSave index = Stored (index\<lparr> idx_updatedAt := nowSave \<rparr>)"

text \<open>One loop of \<open>removeIdFromIndex\<close>: every array loses the id, and an array that is
  left empty is deleted.\<close>

definition drop_id :: "string \<Rightarrow> buckets \<Rightarrow> buckets" where
  "drop_id ident b =
     (\<lambda>k. case b k of
             None \<Rightarrow> None
           | Some ids \<Rightarrow>
               (let kept = filter (\<lambda>existing. existing \<noteq> ident) ids
                in if length kept = 0 then None else Some kept))"

definition removeIdFromIndex :: "MemoryIndex \<Rightarrow> string \<Rightarrow> MemoryIndex" where
  "removeIdFromIndex index ident =
     index\<lparr> byScope := drop_id ident (byScope index),
            byTag := drop_id ident (byTag index),
            byScopeTag :=
              (\<lambda>s. case byScopeTag index s of
                      None \<Rightarrow> None
                    | Some inner \<Rightarrow>
                        (let inner' = drop_id ident inner
                         in if dom inner' = {} then None else Some inner')) \<rparr>"

text \<open>
  \<open>if (!b[k]) b[k] = []; b[k].push(id)\<close>. The array of a key that the object owns is
  truthy, also when it is empty. For a key that the object does not own and
  \<open>Object.prototype\<close> has, the test finds a truthy value, no array is made, and the call
  of \<open>push\<close> throws a \<open>TypeError\<close>; \<open>callee\<close> is the text by which the message names the
  object.
\<close>

definition push_id :: "string \<Rightarrow> buckets \<Rightarrow> string \<Rightarrow> string \<Rightarrow> buckets outcome" where
  "push_id callee b k ident =
     (case b k of
        Some ids \<Rightarrow> Done (b(k \<mapsto> ids @ [ident]))
      | None \<Rightarrow>
          if k \<in> set object_prototype_keys
          then Thrown (TypeError (callee @ ''.push is not a function''))
          else Done (b(k \<mapsto> [ident])))"

text \<open>
  The body of the loop over the tags in \<open>addIdToIndex\<close>. Where \<open>index.byScopeTag\<close> does
  not own the scope and \<open>Object.prototype\<close> has a property of that name, the program goes
  on with that property in the place of a record of buckets, and can write to it.
\<close>

definition add_tag :: "MemoryItem \<Rightarrow> string \<Rightarrow> MemoryIndex \<Rightarrow> MemoryIndex outcome" where
  "add_tag item tag index =
     then_do (push_id ''index.byTag[tag]'' (byTag index) tag (item_id item)) (\<lambda>tagged.
       case byScopeTag index (scope item) of
         Some inner \<Rightarrow>
           then_do (push_id ''index.byScopeTag[item.scope][tag]'' inner tag (item_id item))
             (\<lambda>inner'. Done (index\<lparr> byTag := tagged,
                                    byScopeTag := (byScopeTag index)(scope item \<mapsto> inner') \<rparr>))
       | None \<Rightarrow>
           if scope item \<in> set object_prototype_keys then Unmodelled
           else
             then_do (push_id ''index.byScopeTag[item.scope][tag]'' Map.empty tag (item_id item))
               (\<lambda>inner'. Done (index\<lparr> byTag := tagged,
                                      byScopeTag := (byScopeTag index)(scope item \<mapsto> inner') \<rparr>)))"

fun add_tags :: "MemoryItem \<Rightarrow> string list \<Rightarrow> MemoryIndex \<Rightarrow> MemoryIndex outcome" where
  "add_tags item [] index = Done index"
| "add_tags item (tag # rest) index = then_do (add_tag item tag index) (add_tags item rest)"

definition addIdToIndex :: "MemoryIndex \<Rightarrow> MemoryItem \<Rightarrow> MemoryIndex outcome" where
  "addIdToIndex index item =
     then_do (push_id ''index.byScope[item.scope]'' (byScope index) (scope item) (item_id item))
       (\<lambda>scoped. add_tags item (tags item) (index\<lparr> byScope := scoped \<rparr>))"

text \<open>The comparator of \<open>sortByUpdated\<close>: an id that \<open>itemsById\<close> does not know has the
  time 0.\<close>

definition id_time :: "date_parse \<Rightarrow> (string \<rightharpoonup> MemoryItem) \<Rightarrow> string \<Rightarrow> number" where
  "id_time P itemsById a =
     (case itemsById a of Some aItem \<Rightarrow> time_value (P (updatedAt aItem)) | None \<Rightarrow> Num 0)"

definition updated_compare :: "date_parse \<Rightarrow> (string \<rightharpoonup> MemoryItem) \<Rightarrow> string comparator" where
  "updated_compare P itemsById a b =
     (let aTime = id_time P itemsById a;
          bTime = id_time P itemsById b
      in minus bTime aTime)"

definition sortByUpdated ::
  "string array_sort \<Rightarrow> date_parse \<Rightarrow> (string \<rightharpoonup> MemoryItem) \<Rightarrow> string list \<Rightarrow> string list"
where
  "sortByUpdated srt P itemsById ids = srt (updated_compare P itemsById) ids"

definition sortIndex ::
  "string array_sort \<Rightarrow> date_parse \<Rightarrow> MemoryIndex \<Rightarrow> (string \<rightharpoonup> MemoryItem) \<Rightarrow> MemoryIndex"
where
  "sortIndex srt P index itemsById =
     index\<lparr> byScope := (\<lambda>k. map_option (sortByUpdated srt P itemsById) (byScope index k)),
            byTag := (\<lambda>k. map_option (sortByUpdated srt P itemsById) (byTag index k)),
            byScopeTag :=
              (\<lambda>s. map_option (\<lambda>inner k. map_option (sortByUpdated srt P itemsById) (inner k))
                                (byScopeTag index s)) \<rparr>"

text \<open>The loop of \<open>buildIndex\<close>.\<close>

fun build_loop ::
  "MemoryItem list \<Rightarrow> MemoryIndex \<times> (string \<rightharpoonup> MemoryItem)
     \<Rightarrow> (MemoryIndex \<times> (string \<rightharpoonup> MemoryItem)) outcome"
where
  "build_loop [] st = Done st"
| "build_loop (item # rest) st =
     (if deleted item then build_loop rest st
      else
        then_do (addIdToIndex (fst st) item)
          (\<lambda>index. build_loop rest (index, (snd st)(item_id item \<mapsto> item))))"

definition buildIndex ::
  "string array_sort \<Rightarrow> date_parse \<Rightarrow> string \<Rightarrow> MemoryItem list \<Rightarrow> MemoryIndex outcome"
where
  "buildIndex srt P nowIso xs =
     then_do (build_loop xs (createEmptyIndex nowIso, Map.empty))
       (\<lambda>(index, itemsById). Done (sortIndex srt P index itemsById))"

text \<open>The loop of \<open>updateIndexFromItems\<close>.\<close>

fun update_loop ::
  "MemoryItem list \<Rightarrow> MemoryIndex \<times> (string \<rightharpoonup> MemoryItem)
     \<Rightarrow> (MemoryIndex \<times> (string \<rightharpoonup> MemoryItem)) outcome"
where
  "update_loop [] st = Done st"
| "update_loop (item # rest) st =
     (let itemsById = (snd st)(item_id item \<mapsto> item);
          index = removeIdFromIndex (fst st) (item_id item)
      in if \<not> deleted item
         then then_do (addIdToIndex index item) (\<lambda>index'. update_loop rest (index', itemsById))
         else update_loop rest (index, itemsById))"

text \<open>\<open>updateIndexFromItems\<close> returns the index, or throws, and leaves an index file. The
  file is written last: when the loop throws, the file is as \<open>loadIndex\<close> left it.\<close>

definition updateIndexFromItems ::
  "string array_sort \<Rightarrow> date_parse \<Rightarrow> string \<Rightarrow> string \<Rightarrow> string \<Rightarrow> index_file \<Rightarrow> MemoryItem list
     \<Rightarrow> MemoryIndex outcome \<times> index_file"
where
  "updateIndexFromItems srt P nowEnsure nowLoad nowSave file xs =
     (let (index, file1) = loadIndex nowEnsure nowLoad file
      in case update_loop xs (index, Map.empty) of
           Done (index', itemsById) \<Rightarrow>
             (let sorted = sortIndex srt P index' itemsById
              in (Done sorted, saveIndex nowSave sorted))
         | Thrown e \<Rightarrow> (Thrown e, file1)
         | Unmodelled \<Rightarrow> (Unmodelled, file1))"

section \<open>Summaries (summarizer.ts)\<close>







section \<open>Pruning (prune.ts)\<close>

record PruneAction =
  a_id :: string
  a_patch :: MemoryPatch
  a_reason :: string



definition empty_patch :: MemoryPatch where
  "empty_patch =
     \<lparr> p_scope = None, p_tags = None, p_content = None, p_summary = None, p_metadata = None,
       p_importance = None, p_deleted = None \<rparr>"

text \<open>\<open>s.replace(/\s+/g, " ")\<close>: every run of whitespace becomes one space.\<close>

fun collapse_ws :: "string \<Rightarrow> string" where
  "collapse_ws [] = []"
| "collapse_ws [c] = (if js_whitespace c then '' '' else [c])"
| "collapse_ws (c # d # cs) =
     (if js_whitespace c \<and> js_whitespace d then collapse_ws (d # cs)
      else (if js_whitespace c then CHR '' '' else c) # collapse_ws (d # cs))"

text \<open>\<open>contentFingerprint\<close>: \<open>H\<close> is the SHA-256 digest in hexadecimal, a function of the
  runtime's \<open>crypto\<close> module.\<close>

definition contentFingerprint :: "(string \<Rightarrow> string) \<Rightarrow> string \<Rightarrow> string" where
  "contentFingerprint H text = H (trim (collapse_ws (toLowerCase text)))"









section \<open>The file lock (file-lock.ts)\<close>

record FileLockOptions =
  timeoutMs :: "real option"
  retryDelayMs :: "real option"
  staleMs :: "real option"

definition DEFAULT_TIMEOUT_MS :: real where "DEFAULT_TIMEOUT_MS = 5000"
definition DEFAULT_RETRY_DELAY_MS :: real where "DEFAULT_RETRY_DELAY_MS = 50"
definition DEFAULT_STALE_MS :: real where "DEFAULT_STALE_MS = 30000"

text \<open>
  The lock waits for other processes, so what the file system and the clock answer is
  not a function of what this process did. One turn of the loop \<open>while (true)\<close> reads
  these answers from an event:
  \<^item> \<open>ev_open\<close>: \<open>fs.open(lockPath, "wx")\<close> succeeds (\<open>None\<close>) or throws;
  \<^item> \<open>ev_operation\<close>: what \<open>operation()\<close> returns or throws, when the marker was created;
  \<^item> \<open>ev_release\<close>: \<open>fs.unlink(lockPath)\<close> in the \<open>finally\<close> block;
  \<^item> \<open>ev_clock\<close>: \<open>Date.now()\<close> at the test of the timeout;
  \<^item> \<open>ev_stat\<close>: \<open>fs.stat(lockPath)\<close> gives the modification time or throws;
  \<^item> \<open>ev_stale_clock\<close>: \<open>Date.now()\<close> in \<open>isLockStale\<close>;
  \<^item> \<open>ev_evict\<close>: \<open>fs.unlink(lockPath)\<close> of a stale marker.
  A run is a list of events, one for each turn. What the process does is a list of
  actions.
\<close>

record 'a lock_event =
  ev_open :: "js_error option"
  ev_operation :: "js_error + 'a"
  ev_release :: "js_error option"
  ev_clock :: int
  ev_stat :: "js_error + real"
  ev_stale_clock :: int
  ev_evict :: "js_error option"

datatype lock_action = Created | Released | Evicted | Slept real

text \<open>The loop has returned a value, has thrown, or is still waiting when the events
  end.\<close>

datatype 'a lock_outcome = Returned 'a | Threw js_error | Waiting

definition isLockStale :: "js_error + real \<Rightarrow> int \<Rightarrow> real \<Rightarrow> js_error + bool" where
  "isLockStale stat now stale =
     (case stat of
        Inr mtimeMs \<Rightarrow> Inr (real_of_int now - mtimeMs > stale)
      | Inl e \<Rightarrow> if error_code e = Some ''ENOENT'' then Inr False else Inl e)"

text \<open>\<open>fs.unlink(lockPath).catch(\<dots>)\<close>: \<open>ENOENT\<close> is swallowed, every other error is
  thrown again.\<close>

definition unlink_tolerant :: "js_error option \<Rightarrow> js_error option" where
  "unlink_tolerant r =
     (case r of
        Some e \<Rightarrow> if error_code e \<noteq> Some ''ENOENT'' then Some e else None
      | None \<Rightarrow> None)"

text \<open>The \<open>try\<close> block of one turn: the error that reaches \<open>catch\<close>, or the value
  returned. An error of the \<open>finally\<close> block replaces the result of the operation.\<close>

definition attempt :: "'a lock_event \<Rightarrow> lock_action list \<times> (js_error + 'a)" where
  "attempt ev =
     (case ev_open ev of
        Some e \<Rightarrow> ([], Inl e)
      | None \<Rightarrow>
          (case unlink_tolerant (ev_release ev) of
             Some e \<Rightarrow> ([Created, Released], Inl e)
           | None \<Rightarrow> ([Created, Released], ev_operation ev)))"

text \<open>The constants \<open>timeoutMs\<close>, \<open>retryDelayMs\<close> and \<open>staleMs\<close> of \<open>withFileLock\<close>:
  the option, or its default.\<close>

definition timeout_of :: "FileLockOptions \<Rightarrow> real" where
  "timeout_of options = (case timeoutMs options of Some t \<Rightarrow> t | None \<Rightarrow> DEFAULT_TIMEOUT_MS)"

definition retryDelay_of :: "FileLockOptions \<Rightarrow> real" where
  "retryDelay_of options =
     (case retryDelayMs options of Some t \<Rightarrow> t | None \<Rightarrow> DEFAULT_RETRY_DELAY_MS)"

definition stale_of :: "FileLockOptions \<Rightarrow> real" where
  "stale_of options = (case staleMs options of Some t \<Rightarrow> t | None \<Rightarrow> DEFAULT_STALE_MS)"

fun withFileLock ::
  "FileLockOptions \<Rightarrow> string \<Rightarrow> int \<Rightarrow> 'a lock_event list \<Rightarrow> lock_action list \<times> 'a lock_outcome"
where
  "withFileLock options filePath start [] = ([], Waiting)"
| "withFileLock options filePath start (ev # evs) =
     (let lockPath = filePath @ ''.lock'';
          timeout = timeout_of options;
          retryDelay = retryDelay_of options;
          stale = stale_of options
      in case attempt ev of
           (done, Inr v) \<Rightarrow> (done, Returned v)
         | (done, Inl e) \<Rightarrow>
             if error_code e \<noteq> Some ''EEXIST'' then (done, Threw e)
             else if real_of_int (ev_clock ev - start) > timeout
             then (done, Threw (Error (''Timed out waiting for lock: '' @ lockPath)))
             else
               (case isLockStale (ev_stat ev) (ev_stale_clock ev) stale of
                  Inl e' \<Rightarrow> (done, Threw e')
                | Inr True \<Rightarrow>
                    (case unlink_tolerant (ev_evict ev) of
                       Some e' \<Rightarrow> (done, Threw e')
                     | None \<Rightarrow>
                         (let (later, outcome) = withFileLock options filePath start evs
                          in (done @ Evicted # later, outcome)))
                | Inr False \<Rightarrow>
                    (let (later, outcome) = withFileLock options filePath start evs
                     in (done @ Slept retryDelay # later, outcome))))"

section \<open>Tool calls (server.ts)\<close>

text \<open>
  The arguments of a tool call that \<open>memory.update\<close> and \<open>memory.delete\<close> read:
  \<open>arguments.id\<close> when it is a string, and \<open>arguments.patch\<close> when it is truthy, which an
  object is.
\<close>

record ToolCallArguments =
  arg_id :: "string option"
  arg_patch :: "MemoryPatch option"

text \<open>The readings \<open>new Date().toISOString()\<close> of the clock during one call: in
  \<open>updateMemoryItem\<close>, and in \<open>ensureIndexFile\<close>, \<open>loadIndex\<close> and \<open>saveIndex\<close>.\<close>

record clock_readings =
  at_update :: string
  at_ensure :: string
  at_load :: string
  at_save :: string

text \<open>The patch \<open>{ deleted: true }\<close> of \<open>memory.delete\<close>.\<close>

definition delete_patch :: MemoryPatch where
  "delete_patch =
     \<lparr> p_scope = None, p_tags = None, p_content = None, p_summary = None, p_metadata = None,
       p_importance = None, p_deleted = Some True \<rparr>"

text \<open>
  The end of both cases: \<open>if (!updated) throw new Error("memory item not found")\<close>, then
  the update of the index with the item, which is returned.
\<close>

definition index_updated ::
  "string array_sort \<Rightarrow> date_parse \<Rightarrow> clock_readings \<Rightarrow> index_file
     \<Rightarrow> MemoryItem option \<times> filesystem \<Rightarrow> MemoryItem outcome \<times> (filesystem \<times> index_file)"
where
  "index_updated srt P now indexFile written =
     (case written of
        (None, fs1) \<Rightarrow> (Thrown (Error ''memory item not found''), (fs1, indexFile))
      | (Some updated, fs1) \<Rightarrow>
          (let (indexed, indexFile1) =
                 updateIndexFromItems srt P (at_ensure now) (at_load now) (at_save now)
                   indexFile [updated]
           in (then_do indexed (\<lambda>index. Done updated), (fs1, indexFile1))))"

text \<open>
  \<open>handleToolCall\<close>, for the tools \<open>memory.update\<close> and \<open>memory.delete\<close>; the other five
  tools are not modelled. The state is the file system of the log and the index file.
\<close>

definition handleToolCall ::
  "string array_sort \<Rightarrow> date_parse \<Rightarrow> json_parse \<Rightarrow> json_stringify \<Rightarrow> clock_readings \<Rightarrow> string
     \<Rightarrow> filesystem \<times> index_file \<Rightarrow> string \<Rightarrow> ToolCallArguments
     \<Rightarrow> MemoryItem outcome \<times> (filesystem \<times> index_file)"
where
  "handleToolCall srt P J S now memoryFile files name arguments =
     (let ident = (case arg_id arguments of Some s \<Rightarrow> s | None \<Rightarrow> [])
      in if name = ''memory.update'' then
           (case arg_patch arguments of
              None \<Rightarrow> (Thrown (Error ''id and patch are required''), files)
            | Some patch \<Rightarrow>
                if ident = [] then (Thrown (Error ''id and patch are required''), files)
                else index_updated srt P now (snd files)
                       (updateMemoryItem P J S (at_update now) (fst files) memoryFile ident patch))
         else if name = ''memory.delete'' then
           (if ident = [] then (Thrown (Error ''id is required''), files)
            else index_updated srt P now (snd files)
                   (updateMemoryItem P J S (at_update now) (fst files) memoryFile ident
                      delete_patch))
         else if name \<in> set [''memory.add'', ''memory.search'', ''memory.get'', ''memory.prune'',
                               ''memory.rebuildIndex'']
         then (Unmodelled, files)
         else (Thrown (Error (''Unknown tool: '' @ name)), files))"

text \<open>
  The reply to a request \<open>tools/call\<close>: \<open>jsonResponse\<close> with the result, or \<open>jsonError\<close>
  with a code and a message. The handler of the request catches whatever
  \<open>handleToolCall\<close> throws and replies with the code \<open>-32602\<close> and the message of the
  error.
\<close>

datatype reply = Result MemoryItem | Failure int string

definition tools_call ::
  "string array_sort \<Rightarrow> date_parse \<Rightarrow> json_parse \<Rightarrow> json_stringify \<Rightarrow> clock_readings \<Rightarrow> string
     \<Rightarrow> filesystem \<times> index_file \<Rightarrow> string \<Rightarrow> ToolCallArguments
     \<Rightarrow> reply outcome \<times> (filesystem \<times> index_file)"
where
  "tools_call srt P J S now memoryFile files name arguments =
     (if name = [] then (Done (Failure (- 32602) ''Missing tool name''), files)
      else
        case handleToolCall srt P J S now memoryFile files name arguments of
          (Done item, files1) \<Rightarrow> (Done (Result item), files1)
        | (Thrown (Error message), files1) \<Rightarrow> (Done (Failure (- 32602) message), files1)
        | (Thrown (TypeError message), files1) \<Rightarrow> (Done (Failure (- 32602) message), files1)
        | (_, files1) \<Rightarrow> (Unmodelled, files1))"

section \<open>Specification predicates and loop invariants\<close>

text \<open>The definitions of this section are not code of the program: they state what the
  theorems below claim of it, or what its loops keep.\<close>

text \<open>The resolved timestamp of a record in the words of the specification: \<open>updatedAt\<close>
  parsed as an instant; \<open>createdAt\<close> parsed as an instant if \<open>updatedAt\<close> does not parse;
  epoch zero if neither parses.\<close>

definition parses :: "date_parse \<Rightarrow> string \<Rightarrow> bool" where
  "parses P text \<longleftrightarrow> P text \<noteq> None"

definition instant :: "date_parse \<Rightarrow> string \<Rightarrow> int" where
  "instant P text = (case P text of Some t \<Rightarrow> t | None \<Rightarrow> 0)"

definition resolved_timestamp :: "date_parse \<Rightarrow> MemoryItem \<Rightarrow> int" where
  "resolved_timestamp P item =
     (if parses P (updatedAt item) then instant P (updatedAt item)
      else if parses P (createdAt item) then instant P (createdAt item)
      else 0)"

text \<open>The record at index \<open>i\<close> is the current one of its id: no record of that id has a
  greater resolved timestamp, and every later record of that id has a smaller one.\<close>

definition later_wins :: "date_parse \<Rightarrow> MemoryItem list \<Rightarrow> nat \<Rightarrow> bool" where
  "later_wins P xs i \<longleftrightarrow>
     (\<forall>j<length xs. item_id (xs ! j) = item_id (xs ! i) \<longrightarrow>
        getTimestamp P (xs ! j) \<le> getTimestamp P (xs ! i) \<and>
        (i < j \<longrightarrow> getTimestamp P (xs ! j) < getTimestamp P (xs ! i)))"

text \<open>The invariant of the loop of \<open>selectLatestItems\<close>, after the records \<open>xs\<close>.\<close>

definition latest_inv :: "date_parse \<Rightarrow> MemoryItem list \<Rightarrow> (string, MemoryItem) js_map \<Rightarrow> bool" where
  "latest_inv P xs m \<longleftrightarrow>
     distinct (map fst m) \<and> fst ` set m = item_id ` set xs \<and>
     (\<forall>(k, v) \<in> set m. item_id v = k \<and> (\<exists>i<length xs. xs ! i = v \<and> later_wins P xs i))"

text \<open>A configured value of the lock: the option of the caller, or the default where the
  caller gave none. The defaults are a timeout of 5000, a retry delay of 50 and a
  staleness threshold of 30000 milliseconds.\<close>

definition configured :: "real option \<Rightarrow> real \<Rightarrow> real" where
  "configured given fallback = (case given of Some v \<Rightarrow> v | None \<Rightarrow> fallback)"

text \<open>The lines that a read has counted.\<close>

definition lines_counted :: "ReadResult \<Rightarrow> nat" where
  "lines_counted r = emptyLines (r_stats r) + validLines (r_stats r) + invalidLines (r_stats r)"

text \<open>The order of the numbers that are not \<open>NaN\<close>.\<close>

definition at_most :: "number \<Rightarrow> number \<Rightarrow> bool" where
  "at_most a b =
     (case (a, b) of
        (NaN, _) \<Rightarrow> False
      | (_, NaN) \<Rightarrow> False
      | (NegInf, _) \<Rightarrow> True
      | (_, PosInf) \<Rightarrow> True
      | (Num x, Num y) \<Rightarrow> x \<le> y
      | _ \<Rightarrow> False)"

text \<open>A result whose score is a number and whose \<open>updatedAt\<close> is a date.\<close>

definition scored_well :: "date_parse \<Rightarrow> ScoredResult \<Rightarrow> bool" where
  "scored_well P r \<longleftrightarrow> sr_score r \<noteq> NaN \<and> P (updatedAt (sr_item r)) \<noteq> None"

text \<open>The order of the results of a search: a greater score first; of two equal scores, the
  later \<open>updatedAt\<close> first.\<close>

definition tie_broken :: "date_parse \<Rightarrow> ScoredResult \<Rightarrow> ScoredResult \<Rightarrow> bool" where
  "tie_broken P a b \<longleftrightarrow>
     (at_most (sr_score b) (sr_score a) \<and> sr_score a \<noteq> sr_score b) \<or>
     (sr_score a = sr_score b \<and>
      (\<exists>aTime bTime. P (updatedAt (sr_item a)) = Some aTime \<and>
                      P (updatedAt (sr_item b)) = Some bTime \<and> bTime \<le> aTime))"

text \<open>An occurrence of the item \<open>a\<close> comes before an occurrence of the item \<open>b\<close>.\<close>

definition precedes :: "MemoryItem \<Rightarrow> MemoryItem \<Rightarrow> ScoredResult list \<Rightarrow> bool" where
  "precedes a b rs \<longleftrightarrow>
     (\<exists>i j. i < j \<and> j < length rs \<and> sr_item (rs ! i) = a \<and> sr_item (rs ! j) = b)"

text \<open>Rounding to the nearest double keeps the order of the exact results, also where a
  result overflows: the product by a factor that is not negative, and the sum, are
  monotone in each argument, and are not \<open>NaN\<close>.\<close>

definition monotone_ops :: "num_ops \<Rightarrow> bool" where
  "monotone_ops R \<longleftrightarrow>
     (\<forall>w a b. 0 \<le> w \<and> a \<le> b \<longrightarrow> at_most (mul R w a) (mul R w b)) \<and>
     (\<forall>a b c. a \<le> b \<longrightarrow> at_most (add R a c) (add R b c)) \<and>
     (\<forall>a b c. a \<le> b \<longrightarrow> at_most (add R c a) (add R c b))"

text \<open>The fingerprint of an item.\<close>

definition fingerprint_of :: "(string \<Rightarrow> string) \<Rightarrow> MemoryItem \<Rightarrow> string" where
  "fingerprint_of H item = contentFingerprint H (content item)"

text \<open>The two actions of the deduplication: the patch that gives the canonical item the tags of both
  items, and the soft deletion of the duplicate.\<close>

definition merge_action :: "MemoryItem \<Rightarrow> MemoryItem \<Rightarrow> PruneAction" where
  "merge_action canonical item =
     \<lparr> a_id = item_id canonical,
       a_patch = empty_patch\<lparr> p_tags := Some (from_set (tags canonical @ tags item)) \<rparr>,
       a_reason = ''merge tags from duplicate'' \<rparr>"

definition delete_action :: "MemoryItem \<Rightarrow> PruneAction" where
  "delete_action item =
     \<lparr> a_id = item_id item, a_patch = empty_patch\<lparr> p_deleted := Some True \<rparr>,
       a_reason = ''duplicate content in scope'' \<rparr>"

text \<open>The deduplication as the specification words it. \<open>seen\<close> are the items of the scope that are
  not deleted and come before \<open>item\<close>. The first of them with the fingerprint of \<open>item\<close> is the
  canonical item. Without one \<open>item\<close> is canonical itself and gets no action. With one, \<open>item\<close>
  is deleted, after a tag-merge patch for the canonical item when \<open>item\<close> has a tag that the
  canonical item has not.\<close>

definition expected_actions :: "(string \<Rightarrow> string) \<Rightarrow> MemoryItem list \<Rightarrow> MemoryItem \<Rightarrow> PruneAction list" where
  "expected_actions H seen item =
     (case find (\<lambda>earlier. fingerprint_of H earlier = fingerprint_of H item) seen of
        None \<Rightarrow> []
      | Some canonical \<Rightarrow>
          (if \<exists>tag \<in> set (tags item). tag \<notin> set (tags canonical)
           then [merge_action canonical item] else [])
          @ [delete_action item])"

fun dedupe_expected :: "(string \<Rightarrow> string) \<Rightarrow> MemoryItem list \<Rightarrow> MemoryItem list \<Rightarrow> PruneAction list" where
  "dedupe_expected H seen [] = []"
| "dedupe_expected H seen (item # rest) =
     expected_actions H seen item @ dedupe_expected H (seen @ [item]) rest"


text \<open>The actions that the deduplication pushes, by their reasons.\<close>

definition is_dedupe_action :: "PruneAction \<Rightarrow> bool" where
  "is_dedupe_action a \<longleftrightarrow>
     a_reason a = ''duplicate content in scope'' \<or> a_reason a = ''merge tags from duplicate''"



text \<open>The index without the ids of a set \<open>A\<close>: every array loses them, and what is left empty is
  deleted. \<open>removeIdFromIndex\<close> is the case of one id.\<close>

definition strip_buckets :: "string set \<Rightarrow> buckets \<Rightarrow> buckets" where
  "strip_buckets A b =
     (\<lambda>k. case b k of
             None \<Rightarrow> None
           | Some ids \<Rightarrow>
               (let kept = filter (\<lambda>existing. existing \<notin> A) ids
                in if kept = [] then None else Some kept))"

definition strip_nested :: "string set \<Rightarrow> (string \<rightharpoonup> buckets) \<Rightarrow> (string \<rightharpoonup> buckets)" where
  "strip_nested A n =
     (\<lambda>s. case n s of
             None \<Rightarrow> None
           | Some inner \<Rightarrow>
               (if strip_buckets A inner = Map.empty then None else Some (strip_buckets A inner)))"

definition strip_index :: "string set \<Rightarrow> MemoryIndex \<Rightarrow> MemoryIndex" where
  "strip_index A index =
     index\<lparr> byScope := strip_buckets A (byScope index),
            byTag := strip_buckets A (byTag index),
            byScopeTag := strip_nested A (byScopeTag index) \<rparr>"

text \<open>
  What the update of the index does where nothing is thrown: \<open>push_plain\<close>,
  \<open>add_tag_plain\<close> and \<open>addIdToIndex_plain\<close> are \<open>push_id\<close>, \<open>add_tag\<close> and \<open>addIdToIndex\<close>
  for keys that \<open>Object.prototype\<close> does not have; \<open>index_step\<close> is one turn of the loop
  of \<open>updateIndexFromItems\<close>, \<open>items_by_id\<close> the map \<open>itemsById\<close> after the loop, and
  \<open>update_plain\<close> the index that is saved, with the sort that the language prescribes.
\<close>

definition push_plain :: "buckets \<Rightarrow> string \<Rightarrow> string \<Rightarrow> buckets" where
  "push_plain b k ident = b(k \<mapsto> (case b k of None \<Rightarrow> [] | Some ids \<Rightarrow> ids) @ [ident])"

definition add_tag_plain :: "MemoryItem \<Rightarrow> string \<Rightarrow> MemoryIndex \<Rightarrow> MemoryIndex" where
  "add_tag_plain item tag index =
     index\<lparr> byTag := push_plain (byTag index) tag (item_id item),
            byScopeTag :=
              (byScopeTag index)
                (scope item \<mapsto>
                   push_plain (case byScopeTag index (scope item) of
                                 None \<Rightarrow> Map.empty
                               | Some inner \<Rightarrow> inner)
                              tag (item_id item)) \<rparr>"

definition addIdToIndex_plain :: "MemoryIndex \<Rightarrow> MemoryItem \<Rightarrow> MemoryIndex" where
  "addIdToIndex_plain index item =
     fold (add_tag_plain item) (tags item)
       (index\<lparr> byScope := push_plain (byScope index) (scope item) (item_id item) \<rparr>)"

definition index_step :: "MemoryItem \<Rightarrow> MemoryIndex \<Rightarrow> MemoryIndex" where
  "index_step item index =
     (if \<not> deleted item then addIdToIndex_plain (removeIdFromIndex index (item_id item)) item
      else removeIdFromIndex index (item_id item))"

definition items_by_id :: "MemoryItem list \<Rightarrow> (string \<rightharpoonup> MemoryItem)" where
  "items_by_id xs = fold (\<lambda>item byId. byId(item_id item \<mapsto> item)) xs Map.empty"

definition update_plain :: "date_parse \<Rightarrow> MemoryIndex \<Rightarrow> MemoryItem list \<Rightarrow> MemoryIndex" where
  "update_plain P index xs = sortIndex stable_sort P (fold index_step xs index) (items_by_id xs)"


section \<open>Sample data\<close>

text \<open>Concrete values of the inputs, at which the worked examples evaluate the program.\<close>

text \<open>A parser of two dates and a log entry, for the worked examples.\<close>

definition iso_2025 :: date_parse where
  "iso_2025 s =
     (if s = ''2025-01-01T00:00:00.000Z'' then Some 1735689600000
      else if s = ''2025-01-02T00:00:00.000Z'' then Some 1735776000000
      else None)"

definition memo :: "string \<Rightarrow> string \<Rightarrow> string \<Rightarrow> MemoryItem" where
  "memo i t c =
     \<lparr> item_id = i, createdAt = t, updatedAt = t, scope = ''s'', tags = [], content = c,
       summary = None, metadata = None, importance = 1 / 2, deleted = False \<rparr>"

text \<open>A log of two revisions of one id. The \<open>updatedAt\<close> of the first does not parse and
  its \<open>createdAt\<close> is 2 January; the second was updated on 1 January.\<close>

definition revision :: "string \<Rightarrow> string \<Rightarrow> string \<Rightarrow> string \<Rightarrow> MemoryItem" where
  "revision i c u t = (memo i u t)\<lparr> createdAt := c \<rparr>"

definition fallback_log :: "MemoryItem list" where
  "fallback_log =
     [revision ''a'' ''2025-01-02T00:00:00.000Z'' ''soon'' ''first'',
      revision ''a'' ''2024-12-31T00:00:00.000Z'' ''2025-01-01T00:00:00.000Z'' ''second'',
      revision ''b'' ''long ago'' ''soon'' ''undated'',
      revision ''b'' ''long ago'' ''sooner'' ''undated too'']"

text \<open>A printer and a parser of JSON that know one record, and a log of one line.\<close>

definition sample_stringify :: json_stringify where
  "sample_stringify v = (case field v ''id'' of Some (JStr s) \<Rightarrow> ''{'' @ s @ ''}'' | _ \<Rightarrow> ''{}'')"

definition sample_json_parse :: json_parse where
  "sample_json_parse line =
     (if line = ''{b}'' then Inr (item_json (memo ''b'' ''2025-01-01T00:00:00.000Z'' ''text''))
      else Inl ''Unexpected token'')"

definition sample_fs :: filesystem where
  "sample_fs = [''memory.jsonl'' \<mapsto> [CHR ''{'', CHR ''b'', CHR ''}'', CHR 0x0A]]"

definition sample_readings :: clock_readings where
  "sample_readings =
     \<lparr> at_update = ''2025-01-02T00:00:00.000Z'', at_ensure = ''2025-01-02T00:00:00.001Z'',
       at_load = ''2025-01-02T00:00:00.002Z'', at_save = ''2025-01-02T00:00:00.003Z'' \<rparr>"

definition sample_patch :: MemoryPatch where
  "sample_patch = empty_patch\<lparr> p_summary := Some None, p_importance := Some 2, p_scope := Some '' t '' \<rparr>"

text \<open>A configuration in which only the importance counts, and a query without filters.\<close>

definition no_weights :: ScoringConfig where
  "no_weights = \<lparr> w_scope = 0, w_tag = 0, w_recency = 0, w_importance = 1, w_text = 0,
                   halfLifeDays = 30 \<rparr>"

definition any_query :: SearchQuery where
  "any_query = \<lparr> q_scope = None, q_tags = None, q_text = None, q_limit = None,
                   q_includeDeleted = None, q_now = Some 1735862400000 \<rparr>"

text \<open>
  The doubles next to 1 are \<open>1 - 1 / 2 ^ 53\<close> below and \<open>1 + 1 / 2 ^ 52\<close> above. A result
  strictly between \<open>1 - 1 / 2 ^ 54\<close> and \<open>1 + 1 / 2 ^ 53\<close> is nearer to 1 than to either of them,
  and rounds to 1. \<open>rounded_ops\<close> round such a result; they leave every other result as it
  is, which is what the runtime does when that result is a double.
\<close>

definition round_near_one :: "real \<Rightarrow> real" where
  "round_near_one x = (if 1 - 1 / 2 ^ 54 < x \<and> x < 1 + 1 / 2 ^ 53 then 1 else x)"

definition rounded_ops :: num_ops where
  "rounded_ops =
     \<lparr> mul = (\<lambda>a b. Num (round_near_one (a * b))), add = (\<lambda>a b. Num (round_near_one (a + b))),
       expo = expo exact_ops \<rparr>"

text \<open>Two items of the importances 0.9999999999999999 and 0.9999999999999998, which are
  the doubles \<open>1 - 1 / 2 ^ 53\<close> and \<open>1 - 1 / 2 ^ 52\<close>, and the weight 1.0000000000000002, which is
  the double \<open>1 + 1 / 2 ^ 52\<close>.\<close>

definition heavier :: MemoryItem where
  "heavier = (memo ''a'' ''2025-01-01T00:00:00.000Z'' ''x'')\<lparr> importance := 1 - 1 / 2 ^ 53 \<rparr>"

definition lighter :: MemoryItem where
  "lighter = (memo ''b'' ''2025-01-01T00:00:00.000Z'' ''y'')\<lparr> importance := 1 - 1 / 2 ^ 52 \<rparr>"

definition above_one :: real where
  "above_one = 1 + 1 / 2 ^ 52"

text \<open>Events of the lock: the marker exists, the marker can be created, the directory
  cannot be written.\<close>

definition busy :: "int \<Rightarrow> real \<Rightarrow> string lock_event" where
  "busy clock mtime =
     \<lparr> ev_open = Some (Errno ''EEXIST''), ev_operation = Inl (Error ''not run''),
       ev_release = None, ev_clock = clock, ev_stat = Inr mtime, ev_stale_clock = clock,
       ev_evict = None \<rparr>"

definition free :: "string \<Rightarrow> string lock_event" where
  "free v =
     \<lparr> ev_open = None, ev_operation = Inr v, ev_release = None, ev_clock = 0,
       ev_stat = Inl (Errno ''ENOENT''), ev_stale_clock = 0, ev_evict = None \<rparr>"

definition denied :: "string lock_event" where
  "denied = (free [])\<lparr> ev_open := Some (Errno ''EACCES'') \<rparr>"

definition default_options :: FileLockOptions where
  "default_options = \<lparr> timeoutMs = None, retryDelayMs = None, staleMs = None \<rparr>"

text \<open>A caller that waits at most 100 milliseconds, retries every 7 and takes a marker
  older than 10 for abandoned.\<close>

definition hasty_options :: FileLockOptions where
  "hasty_options = \<lparr> timeoutMs = Some 100, retryDelayMs = Some 7, staleMs = Some 10 \<rparr>"

text \<open>An item with given tags, and the configurations of a prune.\<close>

definition tagged :: "string list \<Rightarrow> MemoryItem \<Rightarrow> MemoryItem" where
  "tagged ts item = item\<lparr> tags := ts \<rparr>"



section \<open>Latest-record resolution: proofs\<close>


lemma keys_map_set:
  "map fst (map_set m k v) = (if k \<in> fst ` set m then map fst m else map fst m @ [k])"
proof (induction m)
  case Nil then show ?case by simp
next
  case (Cons p m)
  obtain k' v' where p: "p = (k', v')" by (cases p)
  show ?case using Cons.IH by (cases "k' = k") (auto simp: p)
qed

lemma set_map_set:
  "distinct (map fst m) \<Longrightarrow> set (map_set m k v) = {p \<in> set m. fst p \<noteq> k} \<union> {(k, v)}"
proof (induction m)
  case Nil then show ?case by simp
next
  case (Cons p m)
  obtain k' v' where p: "p = (k', v')" by (cases p)
  show ?case
  proof (cases "k' = k")
    case True
    with Cons.prems have "\<And>q. q \<in> set m \<Longrightarrow> fst q \<noteq> k" by (auto simp: p)
    with True show ?thesis by (auto simp: p)
  next
    case False
    with Cons show ?thesis by (auto simp: p)
  qed
qed

lemma later_wins_snoc_other:
  assumes "later_wins P xs i" "i < length xs" "item_id x \<noteq> item_id (xs ! i)"
  shows "later_wins P (xs @ [x]) i"
  using assms unfolding later_wins_def
  by (auto simp: nth_append less_Suc_eq)

lemma later_wins_snoc_older:
  assumes "later_wins P xs i" "i < length xs" "getTimestamp P x < getTimestamp P (xs ! i)"
  shows "later_wins P (xs @ [x]) i"
  using assms unfolding later_wins_def
  by (auto simp: nth_append less_Suc_eq)

lemma later_wins_snoc_new:
  assumes "\<forall>j<length xs. item_id (xs ! j) = item_id x \<longrightarrow> getTimestamp P (xs ! j) \<le> getTimestamp P x"
  shows "later_wins P (xs @ [x]) (length xs)"
  using assms unfolding later_wins_def
  by (auto simp: nth_append less_Suc_eq)

lemma latest_invI:
  assumes "distinct (map fst m)" "fst ` set m = item_id ` set xs"
    and "\<And>k v. (k, v) \<in> set m \<Longrightarrow> item_id v = k"
    and "\<And>k v. (k, v) \<in> set m \<Longrightarrow> \<exists>i<length xs. xs ! i = v \<and> later_wins P xs i"
  shows "latest_inv P xs m"
  using assms unfolding latest_inv_def by blast

lemma latest_inv_replace:
  assumes inv: "latest_inv P xs m"
    and new: "later_wins P (xs @ [x]) (length xs)"
  shows "latest_inv P (xs @ [x]) (map_set m (item_id x) x)"
proof (rule latest_invI)
  from inv have d: "distinct (map fst m)" and keys: "fst ` set m = item_id ` set xs"
    and vals: "\<And>k v. (k, v) \<in> set m \<Longrightarrow> item_id v = k \<and> (\<exists>i<length xs. xs ! i = v \<and> later_wins P xs i)"
    unfolding latest_inv_def by auto
  have sm: "set (map_set m (item_id x) x) = {p \<in> set m. fst p \<noteq> item_id x} \<union> {(item_id x, x)}"
    by (rule set_map_set[OF d])
  show "distinct (map fst (map_set m (item_id x) x))"
    using d by (simp add: keys_map_set)
  have "fst ` set (map_set m (item_id x) x) = insert (item_id x) (fst ` set m)"
    unfolding sm by (auto simp: image_iff)
  then show "fst ` set (map_set m (item_id x) x) = item_id ` set (xs @ [x])"
    using keys by auto
  show "item_id v = k" if "(k, v) \<in> set (map_set m (item_id x) x)" for k v
    using that vals unfolding sm by auto
  show "\<exists>i<length (xs @ [x]). (xs @ [x]) ! i = v \<and> later_wins P (xs @ [x]) i"
    if "(k, v) \<in> set (map_set m (item_id x) x)" for k v
  proof (cases "k = item_id x")
    case True
    with that have "v = x" unfolding sm by auto
    with new show ?thesis by (intro exI[of _ "length xs"]) simp
  next
    case False
    with that have "(k, v) \<in> set m" unfolding sm by auto
    from vals[OF this] obtain i where i: "i < length xs" "xs ! i = v" "later_wins P xs i" "item_id v = k"
      by auto
    have "item_id x \<noteq> item_id (xs ! i)" using False i by auto
    from later_wins_snoc_other[OF i(3) i(1) this] i show ?thesis
      by (intro exI[of _ i]) (simp add: nth_append)
  qed
qed

lemma latest_inv_keep:
  assumes inv: "latest_inv P xs m"
    and cur: "map_of m (item_id x) = Some cur"
    and older: "getTimestamp P x < getTimestamp P cur"
  shows "latest_inv P (xs @ [x]) m"
proof (rule latest_invI)
  from inv have d: "distinct (map fst m)" and keys: "fst ` set m = item_id ` set xs"
    and vals: "\<And>k v. (k, v) \<in> set m \<Longrightarrow> item_id v = k \<and> (\<exists>i<length xs. xs ! i = v \<and> later_wins P xs i)"
    unfolding latest_inv_def by auto
  from cur have cur_in: "(item_id x, cur) \<in> set m" by (rule map_of_SomeD)
  show "distinct (map fst m)" by (rule d)
  have "item_id x \<in> fst ` set m" using cur_in by (force simp: image_iff)
  then show "fst ` set m = item_id ` set (xs @ [x])" using keys by auto
  show "item_id v = k" if "(k, v) \<in> set m" for k v using vals[OF that] by simp
  show "\<exists>i<length (xs @ [x]). (xs @ [x]) ! i = v \<and> later_wins P (xs @ [x]) i"
    if "(k, v) \<in> set m" for k v
  proof -
    from vals[OF that] obtain i where i: "i < length xs" "xs ! i = v" "later_wins P xs i" "item_id v = k"
      by auto
    have "later_wins P (xs @ [x]) i"
    proof (cases "k = item_id x")
      case True
      with that cur_in d have "v = cur" by (meson eq_key_imp_eq_value)
      with older i show ?thesis by (intro later_wins_snoc_older) auto
    next
      case False
      with i show ?thesis by (intro later_wins_snoc_other) auto
    qed
    with i show ?thesis by (intro exI[of _ i]) (simp add: nth_append)
  qed
qed

lemma latest_inv_step:
  assumes inv: "latest_inv P xs m"
  shows "latest_inv P (xs @ [x]) (latest_step P m x)"
proof (cases "map_of m (item_id x)")
  case None
  from inv have keys: "fst ` set m = item_id ` set xs" unfolding latest_inv_def by auto
  from None have "item_id x \<notin> item_id ` set xs"
    using keys by (metis map_of_eq_None_iff)
  then have "\<forall>j<length xs. item_id (xs ! j) \<noteq> item_id x"
    by (metis image_eqI nth_mem)
  then have "later_wins P (xs @ [x]) (length xs)"
    by (intro later_wins_snoc_new) simp
  from latest_inv_replace[OF inv this] None show ?thesis
    by (simp add: latest_step_def map_get_def)
next
  case (Some cur)
  from inv have vals: "\<And>k v. (k, v) \<in> set m \<Longrightarrow> item_id v = k \<and> (\<exists>i<length xs. xs ! i = v \<and> later_wins P xs i)"
    unfolding latest_inv_def by auto
  from Some have "(item_id x, cur) \<in> set m" by (rule map_of_SomeD)
  from vals[OF this] obtain c where c: "c < length xs" "xs ! c = cur" "later_wins P xs c" "item_id cur = item_id x"
    by auto
  show ?thesis
  proof (cases "getTimestamp P x \<ge> getTimestamp P cur")
    case True
    have "\<forall>j<length xs. item_id (xs ! j) = item_id x \<longrightarrow> getTimestamp P (xs ! j) \<le> getTimestamp P x"
      using c True unfolding later_wins_def by fastforce
    then have "later_wins P (xs @ [x]) (length xs)" by (rule later_wins_snoc_new)
    from latest_inv_replace[OF inv this] Some True show ?thesis
      by (simp add: latest_step_def map_get_def)
  next
    case False
    then have "getTimestamp P x < getTimestamp P cur" by simp
    from latest_inv_keep[OF inv Some this] Some False show ?thesis
      by (simp add: latest_step_def map_get_def)
  qed
qed

lemma latest_inv_foldl:
  "latest_inv P xs m \<Longrightarrow> latest_inv P (xs @ ys) (foldl (latest_step P) m ys)"
proof (induction ys arbitrary: xs m)
  case Nil then show ?case by simp
next
  case (Cons y ys)
  from Cons.IH[OF latest_inv_step[OF Cons.prems, of y]] show ?case by simp
qed

lemma latest_inv_all: "latest_inv P items (foldl (latest_step P) [] items)"
  using latest_inv_foldl[of P "[]" "[]" items] by (simp add: latest_inv_def)



lemma getTimestamp_resolved: "getTimestamp P item = resolved_timestamp P item"
  by (simp add: getTimestamp_def resolved_timestamp_def parses_def instant_def split: option.splits)

text \<open>
  Claim C1. For every log, \<open>selectLatestItems\<close> returns exactly one item for each id of
  the log: the ids of the result are distinct and are the ids of the log. Each item of
  the result is a record of the log whose resolved timestamp (\<open>updatedAt\<close> parsed as an
  instant, else \<open>createdAt\<close>, else epoch zero) is the greatest among the records of its
  id, and every record of that id that comes later in the log has a strictly smaller
  one: of two records with equal timestamps the later one wins.
\<close>

theorem selectLatestItems_latest_wins:
  "distinct (map item_id (selectLatestItems P items)) \<and>
   set (map item_id (selectLatestItems P items)) = item_id ` set items \<and>
   (\<forall>r \<in> set (selectLatestItems P items).
      \<exists>i<length items. items ! i = r \<and>
        (\<forall>j<length items. item_id (items ! j) = item_id r \<longrightarrow>
           resolved_timestamp P (items ! j) \<le> resolved_timestamp P r \<and>
           (i < j \<longrightarrow> resolved_timestamp P (items ! j) < resolved_timestamp P r)))"
proof -
  define m where "m = foldl (latest_step P) [] items"
  have inv: "latest_inv P items m" unfolding m_def by (rule latest_inv_all)
  then have d: "distinct (map fst m)" and keys: "fst ` set m = item_id ` set items"
    and vals: "\<And>k v. (k, v) \<in> set m \<Longrightarrow> item_id v = k \<and> (\<exists>i<length items. items ! i = v \<and> later_wins P items i)"
    unfolding latest_inv_def by auto
  have sel: "selectLatestItems P items = map snd m"
    by (simp add: selectLatestItems_def map_values_def m_def)
  have ids: "map item_id (map snd m) = map fst m"
    using vals by (auto simp: comp_def)
  have 1: "distinct (map item_id (selectLatestItems P items))"
    unfolding sel ids by (rule d)
  have 2: "set (map item_id (selectLatestItems P items)) = item_id ` set items"
    unfolding sel ids using keys by simp
  have 3: "\<exists>i<length items. items ! i = r \<and>
        (\<forall>j<length items. item_id (items ! j) = item_id r \<longrightarrow>
           resolved_timestamp P (items ! j) \<le> resolved_timestamp P r \<and>
           (i < j \<longrightarrow> resolved_timestamp P (items ! j) < resolved_timestamp P r))"
    if "r \<in> set (selectLatestItems P items)" for r
  proof -
    from that obtain k where "(k, r) \<in> set m" unfolding sel by auto
    from vals[OF this] obtain i where i: "i < length items" "items ! i = r" "later_wins P items i"
      by auto
    from i(3) show ?thesis
      unfolding later_wins_def getTimestamp_resolved using i(1,2) by (intro exI[of _ i]) simp
  qed
  from 1 2 3 show ?thesis by blast
qed

text \<open>On \<open>fallback_log\<close> the first revision of \<open>a\<close> is the current one: its \<open>createdAt\<close>
  stands in for its \<open>updatedAt\<close> and is later than the \<open>updatedAt\<close> of the second. Neither
  date of the records of \<open>b\<close> parses: both resolve to zero, and the later record wins.\<close>

theorem selectLatestItems_latest_wins_witness:
  "selectLatestItems iso_2025 fallback_log
     = [revision ''a'' ''2025-01-02T00:00:00.000Z'' ''soon'' ''first'',
        revision ''b'' ''long ago'' ''sooner'' ''undated too''] \<and>
   map (resolved_timestamp iso_2025) fallback_log = [1735776000000, 1735689600000, 0, 0] \<and>
   (\<exists>i<length fallback_log.
      fallback_log ! i = revision ''a'' ''2025-01-02T00:00:00.000Z'' ''soon'' ''first'' \<and>
      (\<forall>j<length fallback_log.
         item_id (fallback_log ! j)
           = item_id (revision ''a'' ''2025-01-02T00:00:00.000Z'' ''soon'' ''first'') \<longrightarrow>
           resolved_timestamp iso_2025 (fallback_log ! j)
             \<le> resolved_timestamp iso_2025
                  (revision ''a'' ''2025-01-02T00:00:00.000Z'' ''soon'' ''first'') \<and>
           (i < j \<longrightarrow> resolved_timestamp iso_2025 (fallback_log ! j)
             < resolved_timestamp iso_2025
                 (revision ''a'' ''2025-01-02T00:00:00.000Z'' ''soon'' ''first''))))"
proof -
  have sel: "selectLatestItems iso_2025 fallback_log
     = [revision ''a'' ''2025-01-02T00:00:00.000Z'' ''soon'' ''first'',
        revision ''b'' ''long ago'' ''sooner'' ''undated too'']"
    by (simp add: selectLatestItems_def fallback_log_def latest_step_def map_get_def
        map_values_def getTimestamp_def iso_2025_def memo_def revision_def)
  have times: "map (resolved_timestamp iso_2025) fallback_log = [1735776000000, 1735689600000, 0, 0]"
    by (simp add: fallback_log_def resolved_timestamp_def parses_def instant_def iso_2025_def
        memo_def revision_def)
  have mem: "revision ''a'' ''2025-01-02T00:00:00.000Z'' ''soon'' ''first''
      \<in> set (selectLatestItems iso_2025 fallback_log)"
    unfolding sel by simp
  from selectLatestItems_latest_wins[of iso_2025 fallback_log] mem sel times show ?thesis
    by blast
qed

section \<open>Reading the log: proofs\<close>

lemma parseLine_cases:
  assumes "length (trim line) \<noteq> 0" and "parseLine J line n errs = (parsed, errs')"
  shows "(\<exists>item. pl_item parsed = Some item \<and> errs' = errs) \<or>
         (\<exists>message. pl_item parsed = None \<and> pl_error parsed = Some message \<and> message \<noteq> []
            \<and> errs' = errs @ [message])"
proof (cases "J line")
  case (Inl thrown)
  with assms show ?thesis by (auto simp: parseLine_def Let_def)
next
  case (Inr v)
  obtain ok verrors where v: "validateMemoryItem v = (ok, verrors)" by (cases "validateMemoryItem v")
  with Inr assms show ?thesis by (cases ok) (auto simp: parseLine_def Let_def)
qed

lemma read_loop_counts:
  "lines_counted (read_loop J ls i r) = lines_counted r + length ls \<and>
   validLines (r_stats (read_loop J ls i r)) + length (r_items r)
     = validLines (r_stats r) + length (r_items (read_loop J ls i r)) \<and>
   invalidLines (r_stats (read_loop J ls i r)) + length (r_errors r)
     = invalidLines (r_stats r) + length (r_errors (read_loop J ls i r)) \<and>
   totalLines (r_stats (read_loop J ls i r)) = totalLines (r_stats r) \<and>
   bytes (r_stats (read_loop J ls i r)) = bytes (r_stats r)"
proof (induction ls arbitrary: i r)
  case Nil
  show ?case by simp
next
  case (Cons line rest)
  show ?case
  proof (cases "length (trim line) = 0")
    case True
    then show ?thesis
      using Cons.IH[of "i + 1" "r\<lparr> r_stats := (r_stats r)\<lparr> emptyLines := emptyLines (r_stats r) + 1 \<rparr> \<rparr>"]
      by (simp add: lines_counted_def)
  next
    case False
    obtain parsed errs' where p: "parseLine J line (i + 1) (r_errors r) = (parsed, errs')"
      by (cases "parseLine J line (i + 1) (r_errors r)")
    from parseLine_cases[OF False p] show ?thesis
    proof (elim disjE exE conjE)
      fix item assume a: "pl_item parsed = Some item" "errs' = r_errors r"
      show ?thesis
        using False p a
          Cons.IH[of "i + 1" "r\<lparr> r_errors := r_errors r, r_items := r_items r @ [item],
                      r_stats := (r_stats r)\<lparr> validLines := validLines (r_stats r) + 1 \<rparr> \<rparr>"]
        by (simp add: lines_counted_def)
    next
      fix message assume a: "pl_item parsed = None" "pl_error parsed = Some message" "message \<noteq> []"
        "errs' = r_errors r @ [message]"
      show ?thesis
        using False p a
          Cons.IH[of "i + 1" "r\<lparr> r_errors := r_errors r @ [message],
                      r_stats := (r_stats r)\<lparr> invalidLines := invalidLines (r_stats r) + 1 \<rparr> \<rparr>"]
        by (simp add: lines_counted_def)
    qed
  qed
qed


text \<open>
  Claim C10. For every file content, the statistics of \<open>readAllItems\<close> partition the
  lines: \<open>totalLines\<close>, the number of lines of the content, is the sum of \<open>emptyLines\<close>,
  \<open>validLines\<close> and \<open>invalidLines\<close>; \<open>validLines\<close> is the number of items returned and
  \<open>invalidLines\<close> is the number of diagnostics.
\<close>

theorem readAllItems_stats_partition:
  "totalLines (r_stats (fst (readAllItems J fs memoryFile)))
     = emptyLines (r_stats (fst (readAllItems J fs memoryFile)))
       + validLines (r_stats (fst (readAllItems J fs memoryFile)))
       + invalidLines (r_stats (fst (readAllItems J fs memoryFile))) \<and>
   validLines (r_stats (fst (readAllItems J fs memoryFile)))
     = length (r_items (fst (readAllItems J fs memoryFile))) \<and>
   invalidLines (r_stats (fst (readAllItems J fs memoryFile)))
     = length (r_errors (fst (readAllItems J fs memoryFile))) \<and>
   totalLines (r_stats (fst (readAllItems J fs memoryFile)))
     = length (split_lines (readFile (ensureFile fs memoryFile) memoryFile))"
proof -
  define lines where "lines = split_lines (readFile (ensureFile fs memoryFile) memoryFile)"
  define r0 where "r0 = \<lparr> r_items = [], r_errors = [],
      r_stats = \<lparr> totalLines = length lines, emptyLines = 0, validLines = 0,
                  invalidLines = 0, bytes = length (readFile (ensureFile fs memoryFile) memoryFile) \<rparr> \<rparr>"
  have res: "fst (readAllItems J fs memoryFile) = read_loop J lines 0 r0"
    by (simp add: readAllItems_def Let_def lines_def r0_def)
  from read_loop_counts[of J lines 0 r0] show ?thesis
    unfolding res by (simp add: lines_counted_def r0_def lines_def)
qed

section \<open>Updating the log: proofs\<close>

lemma sample_valid:
  "validateMemoryItem (item_json (memo ''b'' ''2025-01-01T00:00:00.000Z'' ''text'')) = (True, [])"
  by (simp add: validateMemoryItem_def item_json_def memo_def isRecord_def field_def
      requiredStringFields_def is_nonblank_string_def is_string_array_def trim_def js_whitespace_def)

lemma sample_roundtrip:
  "as_MemoryItem (item_json (memo ''b'' ''2025-01-01T00:00:00.000Z'' ''text''))
     = memo ''b'' ''2025-01-01T00:00:00.000Z'' ''text''"
  by (simp add: as_MemoryItem_def item_json_def memo_def field_def)

lemma sample_read:
  "r_items (fst (readAllItems sample_json_parse sample_fs ''memory.jsonl''))
     = [memo ''b'' ''2025-01-01T00:00:00.000Z'' ''text'']"
  by (simp add: readAllItems_def sample_fs_def ensureFile_def readFile_def Let_def parseLine_def
      sample_json_parse_def sample_valid sample_roundtrip trim_def js_whitespace_def)

lemma sample_latest:
  "r_items (fst (readLatestItems iso_2025 sample_json_parse sample_fs ''memory.jsonl''))
     = [memo ''b'' ''2025-01-01T00:00:00.000Z'' ''text'']"
  by (simp add: readLatestItems_def split_beta sample_read selectLatestItems_def latest_step_def
      map_get_def map_values_def)


lemma readLatestItems_fs: "snd (readLatestItems P J fs memoryFile) = ensureFile fs memoryFile"
  by (simp add: readLatestItems_def readAllItems_def Let_def split_beta)

lemma readFile_ensureFile: "readFile (ensureFile fs memoryFile) p = readFile fs p"
  by (simp add: readFile_def ensureFile_def split: option.splits)


lemma find_absent: "ident \<notin> item_id ` set xs \<Longrightarrow> find (\<lambda>item. item_id item = ident) xs = None"
  by (induction xs) auto


lemma index_updated_not_found:
  "index_updated srt P now indexFile (None, fs1)
     = (Thrown (Error ''memory item not found''), (fs1, indexFile))"
  by (simp add: index_updated_def)

text \<open>
  Claim C8. For every log and every id that its latest view does not have,
  \<open>updateMemoryItem\<close> returns \<open>null\<close> and appends no record: the file system it leaves is
  the one \<open>ensureFile\<close> leaves, in which every file has the text it had. The tools
  \<open>memory.update\<close> and \<open>memory.delete\<close>, called with such an id that is not empty, then
  throw the error \<open>memory item not found\<close>, touch neither the log nor the index file, and
  the reply has that message. The errors for arguments that are not valid are other
  errors: \<open>id and patch are required\<close> and \<open>id is required\<close>, for an id that is missing or
  empty or a patch that is missing, whatever the log holds. The replies differ in the
  message; the code of all of them is \<open>-32602\<close>.
\<close>

theorem updateMemoryItem_not_found:
  assumes "ident \<notin> item_id ` set (r_items (fst (readLatestItems P J fs memoryFile)))"
  shows "updateMemoryItem P J S nowIso fs memoryFile ident patch = (None, ensureFile fs memoryFile) \<and>
         (\<forall>p. readFile (ensureFile fs memoryFile) p = readFile fs p) \<and>
         (ident \<noteq> [] \<longrightarrow>
            handleToolCall srt P J S now memoryFile (fs, indexFile) ''memory.update''
                \<lparr> arg_id = Some ident, arg_patch = Some patch \<rparr>
              = (Thrown (Error ''memory item not found''), (ensureFile fs memoryFile, indexFile)) \<and>
            handleToolCall srt P J S now memoryFile (fs, indexFile) ''memory.delete''
                \<lparr> arg_id = Some ident, arg_patch = given \<rparr>
              = (Thrown (Error ''memory item not found''), (ensureFile fs memoryFile, indexFile)) \<and>
            tools_call srt P J S now memoryFile (fs, indexFile) ''memory.update''
                \<lparr> arg_id = Some ident, arg_patch = Some patch \<rparr>
              = (Done (Failure (- 32602) ''memory item not found''),
                 (ensureFile fs memoryFile, indexFile)) \<and>
            tools_call srt P J S now memoryFile (fs, indexFile) ''memory.delete''
                \<lparr> arg_id = Some ident, arg_patch = given \<rparr>
              = (Done (Failure (- 32602) ''memory item not found''),
                 (ensureFile fs memoryFile, indexFile))) \<and>
         (\<forall>arguments.
            arg_id arguments = None \<or> arg_id arguments = Some [] \<or> arg_patch arguments = None \<longrightarrow>
            tools_call srt P J S now memoryFile (fs, indexFile) ''memory.update'' arguments
              = (Done (Failure (- 32602) ''id and patch are required''), (fs, indexFile))) \<and>
         (\<forall>arguments.
            arg_id arguments = None \<or> arg_id arguments = Some [] \<longrightarrow>
            tools_call srt P J S now memoryFile (fs, indexFile) ''memory.delete'' arguments
              = (Done (Failure (- 32602) ''id is required''), (fs, indexFile)))"
proof -
  have upd: "updateMemoryItem P J S stamp fs memoryFile ident q = (None, ensureFile fs memoryFile)"
    for q stamp
    using find_absent[OF assms] readLatestItems_fs[of P J fs memoryFile]
    by (simp add: updateMemoryItem_def split_beta)
  have invalid_update: "handleToolCall srt P J S now memoryFile (fs, indexFile) ''memory.update'' arguments
      = (Thrown (Error ''id and patch are required''), (fs, indexFile))"
    if "arg_id arguments = None \<or> arg_id arguments = Some [] \<or> arg_patch arguments = None"
    for arguments
    using that by (auto simp: handleToolCall_def split: option.splits)
  have invalid_delete: "handleToolCall srt P J S now memoryFile (fs, indexFile) ''memory.delete'' arguments
      = (Thrown (Error ''id is required''), (fs, indexFile))"
    if "arg_id arguments = None \<or> arg_id arguments = Some []" for arguments
    using that by (auto simp: handleToolCall_def split: option.splits)
  have missing: "handleToolCall srt P J S now memoryFile (fs, indexFile) ''memory.update''
          \<lparr> arg_id = Some ident, arg_patch = Some patch \<rparr>
        = (Thrown (Error ''memory item not found''), (ensureFile fs memoryFile, indexFile))"
      "handleToolCall srt P J S now memoryFile (fs, indexFile) ''memory.delete''
          \<lparr> arg_id = Some ident, arg_patch = given \<rparr>
        = (Thrown (Error ''memory item not found''), (ensureFile fs memoryFile, indexFile))"
    if "ident \<noteq> []"
    using that by (simp_all add: handleToolCall_def upd index_updated_not_found)
  show ?thesis
    using upd invalid_update invalid_delete missing
    by (simp add: readFile_ensureFile tools_call_def)
qed

text \<open>
  The log holds one item, of the id \<open>b\<close>. An update and a deletion of the id \<open>a\<close> are
  answered with \<open>memory item not found\<close>, a deletion of the empty id with
  \<open>id is required\<close> and an update without a patch with \<open>id and patch are required\<close>, and
  the log is as it was.
\<close>

theorem updateMemoryItem_not_found_witness:
  "updateMemoryItem iso_2025 sample_json_parse sample_stringify ''2025-01-02T00:00:00.000Z''
     sample_fs ''memory.jsonl'' ''a'' sample_patch = (None, ensureFile sample_fs ''memory.jsonl'') \<and>
   readFile (ensureFile sample_fs ''memory.jsonl'') ''memory.jsonl''
     = [CHR ''{'', CHR ''b'', CHR ''}'', CHR 0x0A] \<and>
   tools_call v8_sort iso_2025 sample_json_parse sample_stringify sample_readings ''memory.jsonl''
       (sample_fs, Absent) ''memory.update'' \<lparr> arg_id = Some ''a'', arg_patch = Some sample_patch \<rparr>
     = (Done (Failure (- 32602) ''memory item not found''),
        (ensureFile sample_fs ''memory.jsonl'', Absent)) \<and>
   tools_call v8_sort iso_2025 sample_json_parse sample_stringify sample_readings ''memory.jsonl''
       (sample_fs, Absent) ''memory.delete'' \<lparr> arg_id = Some ''a'', arg_patch = None \<rparr>
     = (Done (Failure (- 32602) ''memory item not found''),
        (ensureFile sample_fs ''memory.jsonl'', Absent)) \<and>
   tools_call v8_sort iso_2025 sample_json_parse sample_stringify sample_readings ''memory.jsonl''
       (sample_fs, Absent) ''memory.delete'' \<lparr> arg_id = Some [], arg_patch = None \<rparr>
     = (Done (Failure (- 32602) ''id is required''), (sample_fs, Absent)) \<and>
   tools_call v8_sort iso_2025 sample_json_parse sample_stringify sample_readings ''memory.jsonl''
       (sample_fs, Absent) ''memory.update'' \<lparr> arg_id = Some ''a'', arg_patch = None \<rparr>
     = (Done (Failure (- 32602) ''id and patch are required''), (sample_fs, Absent))"
proof -
  have absent: "''a'' \<notin> item_id ` set (r_items (fst (readLatestItems iso_2025 sample_json_parse
      sample_fs ''memory.jsonl'')))"
    by (simp add: sample_latest memo_def)
  have "readFile sample_fs ''memory.jsonl'' = [CHR ''{'', CHR ''b'', CHR ''}'', CHR 0x0A]"
    by (simp add: readFile_def sample_fs_def)
  with updateMemoryItem_not_found[OF absent, of sample_stringify "''2025-01-02T00:00:00.000Z''"
      sample_patch v8_sort sample_readings Absent None]
  show ?thesis by simp
qed








section \<open>Repair: proofs\<close>

lemma repair_loop_read:
  "fst (repair_loop J ls i (r, c)) = read_loop J ls i r \<and>
   length (snd (repair_loop J ls i (r, c))) + invalidLines (r_stats r)
     = length c + invalidLines (r_stats (read_loop J ls i r))"
proof (induction ls arbitrary: i r c)
  case Nil
  show ?case by simp
next
  case (Cons line rest)
  show ?case
  proof (cases "length (trim line) = 0")
    case True
    then show ?thesis
      using Cons.IH[of "i + 1" "r\<lparr> r_stats := (r_stats r)\<lparr> emptyLines := emptyLines (r_stats r) + 1 \<rparr> \<rparr>" c]
      by simp
  next
    case False
    obtain parsed errs' where p: "parseLine J line (i + 1) (r_errors r) = (parsed, errs')"
      by (cases "parseLine J line (i + 1) (r_errors r)")
    from parseLine_cases[OF False p] show ?thesis
    proof (elim disjE exE conjE)
      fix item assume a: "pl_item parsed = Some item" "errs' = r_errors r"
      show ?thesis
        using False p a
          Cons.IH[of "i + 1" "r\<lparr> r_errors := r_errors r, r_items := r_items r @ [item],
                      r_stats := (r_stats r)\<lparr> validLines := validLines (r_stats r) + 1 \<rparr> \<rparr>" c]
        by simp
    next
      fix message assume a: "pl_item parsed = None" "pl_error parsed = Some message" "message \<noteq> []"
        "errs' = r_errors r @ [message]"
      show ?thesis
        using False p a
          Cons.IH[of "i + 1" "r\<lparr> r_errors := r_errors r @ [message],
                      r_stats := (r_stats r)\<lparr> invalidLines := invalidLines (r_stats r) + 1 \<rparr> \<rparr>"
                     "c @ [\<lparr> ce_lineNumber = i + 1, ce_error = message, ce_raw = line \<rparr>]"]
        by simp
    qed
  qed
qed

lemma rewrite_log_files:
  assumes "fs memoryFile = Some old"
  shows "rewrite_log S now fs memoryFile out memoryFile = Some (serialize_items S out) \<and>
         rewrite_log S now fs memoryFile out (memoryFile @ ''.bak.'' @ show_nat now) = Some old \<and>
         rewrite_log S now fs memoryFile out (memoryFile @ ''.tmp'') = None"
  using assms by (simp add: rewrite_log_def Let_def rename_def)



text \<open>
  Claim C3, as amended. For every log and every call of \<open>repairMemoryFile\<close>, the log is
  rewritten if and only if an invalid line was found, or compaction was requested and
  the log has a valid record. The rewritten log holds the valid records in order, or
  their latest view when it is compacted; the text the log had is in the backup, and the
  temporary file is gone. Otherwise nothing is written.
\<close>

theorem repairMemoryFile_rewrite:
  "let read = fst (readAllItems J fs memoryFile);
       valid = r_items read;
       compact_requested = (o_compact options = Some True);
       old = readFile fs memoryFile;
       result = fst (repairMemoryFile P J S nowQ nowB fs memoryFile options);
       fs' = snd (repairMemoryFile P J S nowQ nowB fs memoryFile options)
   in repaired result = (invalidLines (r_stats read) > 0) \<and>
      compacted result = (compact_requested \<and> valid \<noteq> []) \<and>
      (if invalidLines (r_stats read) > 0 \<or> (compact_requested \<and> valid \<noteq> [])
       then fs' memoryFile
              = Some (serialize_items S
                        (if compact_requested \<and> valid \<noteq> [] then selectLatestItems P valid
                         else valid)) \<and>
            fs' (memoryFile @ ''.bak.'' @ show_nat nowB) = Some old \<and>
            fs' (memoryFile @ ''.tmp'') = None
       else fs' = ensureFile fs memoryFile \<and> fs' memoryFile = Some old)"
proof -
  define content where "content = readFile (ensureFile fs memoryFile) memoryFile"
  define lines where "lines = split_lines content"
  define r0 where "r0 = \<lparr> r_items = [], r_errors = [],
      r_stats = \<lparr> totalLines = length lines, emptyLines = 0, validLines = 0,
                  invalidLines = 0, bytes = length content \<rparr> \<rparr>"
  define r where "r = read_loop J lines 0 r0"
  define c where "c = snd (repair_loop J lines 0 (r0, []))"
  have rl: "repair_loop J lines 0 (r0, []) = (r, c)"
    using repair_loop_read[of J lines 0 r0 "[]"] by (simp add: r_def c_def prod_eq_iff)
  have clen: "length c = invalidLines (r_stats r)"
    using repair_loop_read[of J lines 0 r0 "[]"] by (simp add: r_def c_def r0_def)
  have read: "fst (readAllItems J fs memoryFile) = r"
    by (simp add: readAllItems_def Let_def r_def r0_def lines_def content_def)
  have old: "ensureFile fs memoryFile memoryFile = Some (readFile fs memoryFile)"
    by (simp add: ensureFile_def readFile_def split: option.splits)
  have copt: "(case o_compact options of Some b \<Rightarrow> b | None \<Rightarrow> False) = (o_compact options = Some True)"
    by (cases "o_compact options") auto
  define q where "q = memoryFile @ ''.corrupt.'' @ show_nat nowQ @ ''.jsonl''"
  have qneq: "q \<noteq> memoryFile" "q \<noteq> memoryFile @ ''.bak.'' @ show_nat nowB" "q \<noteq> memoryFile @ ''.tmp''"
    by (simp_all add: q_def)
  define qtext where "qtext = join [CHR 0x0A] (map (\<lambda>e. S (entry_json e)) c) @ [CHR 0x0A]"
  define fs2 where "fs2 = (if (case o_quarantine options of Some b \<Rightarrow> b | None \<Rightarrow> True) \<and> length c > 0
      then (ensureFile fs memoryFile)(q \<mapsto> qtext) else ensureFile fs memoryFile)"
  have fs2_old: "fs2 memoryFile = Some (readFile fs memoryFile)"
    using old qneq by (simp add: fs2_def)
  have fs2_clean: "invalidLines (r_stats r) = 0 \<Longrightarrow> fs2 = ensureFile fs memoryFile"
    using clen by (simp add: fs2_def)
  define out where "out = (if o_compact options = Some True \<and> r_items r \<noteq> []
      then selectLatestItems P (r_items r) else r_items r)"
  have rep: "repairMemoryFile P J S nowQ nowB fs memoryFile options
      = (\<lparr> repaired = (invalidLines (r_stats r) > 0),
            compacted = (o_compact options = Some True \<and> r_items r \<noteq> []),
            rr_errors = r_errors r, rr_stats = r_stats r,
            quarantinedFile = (if (case o_quarantine options of Some b \<Rightarrow> b | None \<Rightarrow> True) \<and> length c > 0
                               then Some q else None),
            quarantinedLines = length c \<rparr>,
         if invalidLines (r_stats r) > 0 \<or> (o_compact options = Some True \<and> r_items r \<noteq> [])
         then rewrite_log S nowB fs2 memoryFile out else fs2)"
    using repair_loop_read[of J lines 0 r0 "[]", THEN conjunct1]
    by (simp add: repairMemoryFile_def Let_def split_beta content_def lines_def r0_def r_def c_def
        copt q_def qtext_def fs2_def out_def)
  show ?thesis
    unfolding Let_def read rep
    using rewrite_log_files[where fs=fs2 and memoryFile=memoryFile and old="readFile fs memoryFile" and S=S and now=nowB and out=out, OF fs2_old] fs2_clean fs2_old
    by (auto simp: out_def)
qed


text \<open>
  The claim C3 as stated fails: on an empty log, a repair with compaction requested
  rewrites nothing. The log keeps its empty text, where a rewrite leaves a line feed, and
  there is no backup.
\<close>

theorem repairMemoryFile_compact_empty_counterexample:
  "o_compact \<lparr> o_compact = Some True, o_quarantine = None \<rparr> = Some True \<and>
   snd (repairMemoryFile iso_2025 sample_json_parse sample_stringify 1 2 Map.empty ''memory.jsonl''
          \<lparr> o_compact = Some True, o_quarantine = None \<rparr>) ''memory.jsonl'' = Some [] \<and>
   snd (repairMemoryFile iso_2025 sample_json_parse sample_stringify 1 2 Map.empty ''memory.jsonl''
          \<lparr> o_compact = Some True, o_quarantine = None \<rparr>) ''memory.jsonl.bak.2'' = None \<and>
   serialize_items sample_stringify (selectLatestItems iso_2025 []) \<noteq> []"
  by (simp add: repairMemoryFile_def Let_def ensureFile_def readFile_def trim_def
      serialize_items_def)

section \<open>The file lock: proofs\<close>

text \<open>
  Claim C5. Whenever the creation of the marker fails because the marker exists: if the
  time waited exceeds the configured timeout, the lock fails with the timeout error that
  names the lock path; otherwise, if the modification time of the marker is older than
  the configured staleness threshold, the marker is deleted and the next turn starts at
  once; otherwise (the marker is fresh, or gone when it is inspected) the caller sleeps
  the configured retry delay and the next turn starts. An error of the file system
  other than \<open>EEXIST\<close> at the creation, other than \<open>ENOENT\<close> at the inspection or the
  deletion of the marker, is thrown at once: no further turn is made.
\<close>

theorem withFileLock_contention:
  "(ev_open ev = Some (Errno ''EEXIST'')
      \<and> real_of_int (ev_clock ev - start) > configured (timeoutMs options) 5000
      \<longrightarrow> withFileLock options filePath start (ev # evs)
            = ([], Threw (Error (''Timed out waiting for lock: '' @ filePath @ ''.lock'')))) \<and>
   (ev_open ev = Some (Errno ''EEXIST'')
      \<and> \<not> real_of_int (ev_clock ev - start) > configured (timeoutMs options) 5000
      \<and> ev_stat ev = Inr mtime
      \<and> real_of_int (ev_stale_clock ev) - mtime > configured (staleMs options) 30000
      \<and> unlink_tolerant (ev_evict ev) = None
      \<longrightarrow> withFileLock options filePath start (ev # evs)
            = (Evicted # fst (withFileLock options filePath start evs),
               snd (withFileLock options filePath start evs))) \<and>
   (ev_open ev = Some (Errno ''EEXIST'')
      \<and> \<not> real_of_int (ev_clock ev - start) > configured (timeoutMs options) 5000
      \<and> (ev_stat ev = Inr mtime
             \<and> \<not> real_of_int (ev_stale_clock ev) - mtime > configured (staleMs options) 30000
           \<or> ev_stat ev = Inl (Errno ''ENOENT''))
      \<longrightarrow> withFileLock options filePath start (ev # evs)
            = (Slept (configured (retryDelayMs options) 50)
                 # fst (withFileLock options filePath start evs),
               snd (withFileLock options filePath start evs))) \<and>
   (ev_open ev = Some e \<and> error_code e \<noteq> Some ''EEXIST''
      \<longrightarrow> withFileLock options filePath start (ev # evs) = ([], Threw e)) \<and>
   (ev_open ev = Some (Errno ''EEXIST'')
      \<and> \<not> real_of_int (ev_clock ev - start) > configured (timeoutMs options) 5000
      \<and> ev_stat ev = Inl e \<and> error_code e \<noteq> Some ''ENOENT''
      \<longrightarrow> withFileLock options filePath start (ev # evs) = ([], Threw e)) \<and>
   (ev_open ev = Some (Errno ''EEXIST'')
      \<and> \<not> real_of_int (ev_clock ev - start) > configured (timeoutMs options) 5000
      \<and> ev_stat ev = Inr mtime
      \<and> real_of_int (ev_stale_clock ev) - mtime > configured (staleMs options) 30000
      \<and> ev_evict ev = Some e \<and> error_code e \<noteq> Some ''ENOENT''
      \<longrightarrow> withFileLock options filePath start (ev # evs) = ([], Threw e))"
proof -
  have exist: "error_code (Errno ''EEXIST'') = Some ''EEXIST''"
    by (simp add: error_code_def)
  have enoent: "error_code (Errno ''ENOENT'') = Some ''ENOENT''"
    by (simp add: error_code_def)
  have t: "timeout_of options = configured (timeoutMs options) 5000"
    by (simp add: timeout_of_def configured_def DEFAULT_TIMEOUT_MS_def split: option.splits)
  have s: "stale_of options = configured (staleMs options) 30000"
    by (simp add: stale_of_def configured_def DEFAULT_STALE_MS_def split: option.splits)
  have r: "retryDelay_of options = configured (retryDelayMs options) 50"
    by (simp add: retryDelay_of_def configured_def DEFAULT_RETRY_DELAY_MS_def split: option.splits)
  show ?thesis
    by (auto simp: attempt_def isLockStale_def unlink_tolerant_def exist enoent Let_def split_beta
        t s r)
qed

lemmas lock_eval = busy_def free_def denied_def default_options_def hasty_options_def
  timeout_of_def retryDelay_of_def stale_of_def configured_def
  DEFAULT_TIMEOUT_MS_def DEFAULT_RETRY_DELAY_MS_def DEFAULT_STALE_MS_def
  error_code_def unlink_tolerant_def attempt_def isLockStale_def

text \<open>
  With its own options the caller gives up after 200 milliseconds, where the default
  timeout has not passed; it evicts a marker that is 20 milliseconds old and then sleeps
  7 milliseconds. With the default options it gives up after 6000 milliseconds, and
  after 200 milliseconds it sleeps 50.
\<close>

theorem withFileLock_contention_witness:
  "withFileLock hasty_options ''memory.jsonl'' 0 [busy 200 0, free ''done'']
     = ([], Threw (Error ''Timed out waiting for lock: memory.jsonl.lock'')) \<and>
   withFileLock hasty_options ''memory.jsonl'' 0 [busy 50 30, busy 60 55, free ''done'']
     = ([Evicted, Slept 7, Created, Released], Returned ''done'') \<and>
   withFileLock default_options ''memory.jsonl'' 0 [busy 6000 0, free ''done'']
     = ([], Threw (Error ''Timed out waiting for lock: memory.jsonl.lock'')) \<and>
   withFileLock default_options ''memory.jsonl'' 0 [busy 200 0, free ''done'']
     = ([Slept 50, Created, Released], Returned ''done'') \<and>
   withFileLock hasty_options ''memory.jsonl'' 0 [denied, free ''done'']
     = ([], Threw (Errno ''EACCES''))"
proof -
  have last: "withFileLock options ''memory.jsonl'' 0 [free ''done'']
      = ([Created, Released], Returned ''done'')" for options
    by (simp add: lock_eval)
  have h1: "ev_open (busy 200 0) = Some (Errno ''EEXIST'') \<and>
      real_of_int (ev_clock (busy 200 0) - 0) > configured (timeoutMs hasty_options) 5000"
    by (simp add: lock_eval)
  have h2: "ev_open (busy 50 30) = Some (Errno ''EEXIST'') \<and>
      \<not> real_of_int (ev_clock (busy 50 30) - 0) > configured (timeoutMs hasty_options) 5000 \<and>
      ev_stat (busy 50 30) = Inr 30 \<and>
      real_of_int (ev_stale_clock (busy 50 30)) - 30 > configured (staleMs hasty_options) 30000 \<and>
      unlink_tolerant (ev_evict (busy 50 30)) = None"
    by (simp add: lock_eval)
  have h3: "ev_open (busy 60 55) = Some (Errno ''EEXIST'') \<and>
      \<not> real_of_int (ev_clock (busy 60 55) - 0) > configured (timeoutMs hasty_options) 5000 \<and>
      (ev_stat (busy 60 55) = Inr 55 \<and>
       \<not> real_of_int (ev_stale_clock (busy 60 55)) - 55 > configured (staleMs hasty_options) 30000
       \<or> ev_stat (busy 60 55) = Inl (Errno ''ENOENT''))"
    by (simp add: lock_eval)
  have h4: "ev_open denied = Some (Errno ''EACCES'') \<and> error_code (Errno ''EACCES'') \<noteq> Some ''EEXIST''"
    by (simp add: lock_eval)
  have h5: "ev_open (busy 6000 0) = Some (Errno ''EEXIST'') \<and>
      real_of_int (ev_clock (busy 6000 0) - 0) > configured (timeoutMs default_options) 5000"
    by (simp add: lock_eval)
  have h6: "ev_open (busy 200 0) = Some (Errno ''EEXIST'') \<and>
      \<not> real_of_int (ev_clock (busy 200 0) - 0) > configured (timeoutMs default_options) 5000 \<and>
      (ev_stat (busy 200 0) = Inr 0 \<and>
       \<not> real_of_int (ev_stale_clock (busy 200 0)) - 0 > configured (staleMs default_options) 30000
       \<or> ev_stat (busy 200 0) = Inl (Errno ''ENOENT''))"
    by (simp add: lock_eval)
  note hasty = withFileLock_contention[where options = hasty_options
      and filePath = "''memory.jsonl''" and start = 0]
  note default = withFileLock_contention[where options = default_options
      and filePath = "''memory.jsonl''" and start = 0]
  have r1: "withFileLock hasty_options ''memory.jsonl'' 0 [busy 200 0, free ''done'']
     = ([], Threw (Error ''Timed out waiting for lock: memory.jsonl.lock''))"
    using hasty[where ev = "busy 200 0" and evs = "[free ''done'']"] h1 by simp
  have r3: "withFileLock hasty_options ''memory.jsonl'' 0 [busy 60 55, free ''done'']
     = ([Slept 7, Created, Released], Returned ''done'')"
    using hasty[where ev = "busy 60 55" and evs = "[free ''done'']" and mtime = 55] h3 last
    by (simp add: configured_def hasty_options_def)
  have r2: "withFileLock hasty_options ''memory.jsonl'' 0 [busy 50 30, busy 60 55, free ''done'']
     = ([Evicted, Slept 7, Created, Released], Returned ''done'')"
    using hasty[where ev = "busy 50 30" and evs = "[busy 60 55, free ''done'']" and mtime = 30] h2 r3
    by simp
  have r4: "withFileLock hasty_options ''memory.jsonl'' 0 [denied, free ''done'']
     = ([], Threw (Errno ''EACCES''))"
    using hasty[where ev = denied and evs = "[free ''done'']" and e = "Errno ''EACCES''"] h4 by simp
  have r5: "withFileLock default_options ''memory.jsonl'' 0 [busy 6000 0, free ''done'']
     = ([], Threw (Error ''Timed out waiting for lock: memory.jsonl.lock''))"
    using default[where ev = "busy 6000 0" and evs = "[free ''done'']"] h5 by simp
  have r6: "withFileLock default_options ''memory.jsonl'' 0 [busy 200 0, free ''done'']
     = ([Slept 50, Created, Released], Returned ''done'')"
    using default[where ev = "busy 200 0" and evs = "[free ''done'']" and mtime = 0] h6 last
    by (simp add: configured_def default_options_def)
  from r1 r2 r4 r5 r6 show ?thesis by simp
qed

section \<open>Numbers: proofs\<close>

lemma at_most_refl: "a \<noteq> NaN \<Longrightarrow> at_most a a"
  by (cases a) (simp_all add: at_most_def)

lemma at_most_trans: "at_most a b \<Longrightarrow> at_most b c \<Longrightarrow> at_most a c"
  by (cases a; cases b; cases c) (simp_all add: at_most_def)

lemma at_most_antisym: "at_most a b \<Longrightarrow> at_most b a \<Longrightarrow> a = b"
  by (cases a; cases b) (simp_all add: at_most_def)

lemma at_most_total: "a \<noteq> NaN \<Longrightarrow> b \<noteq> NaN \<Longrightarrow> at_most a b \<or> at_most b a"
  by (cases a; cases b) (auto simp: at_most_def)

lemma at_most_numbers: "at_most a b \<Longrightarrow> a \<noteq> NaN \<and> b \<noteq> NaN"
  by (cases a; cases b) (simp_all add: at_most_def)

lemma at_most_Num [simp]: "at_most (Num x) (Num y) \<longleftrightarrow> x \<le> y"
  by (simp add: at_most_def)

lemma at_most_simps [simp]:
  "at_most a PosInf \<longleftrightarrow> a \<noteq> NaN"
  "at_most NegInf a \<longleftrightarrow> a \<noteq> NaN"
  "at_most PosInf a \<longleftrightarrow> a = PosInf"
  "at_most a NegInf \<longleftrightarrow> a = NegInf"
  "\<not> at_most NaN a"
  "\<not> at_most a NaN"
  by (cases a; simp add: at_most_def)+

lemma positive_Num [simp]: "positive (Num x) \<longleftrightarrow> x > 0"
  by (simp add: positive_def)

lemma negative_Num [simp]: "negative (Num x) \<longleftrightarrow> x < 0"
  by (simp add: negative_def)

lemma positive_minus: "positive (minus b a) \<longleftrightarrow> at_most a b \<and> a \<noteq> b"
  by (cases a; cases b) (auto simp: positive_def minus_def at_most_def)

lemma negative_minus: "negative (minus b a) \<longleftrightarrow> at_most b a \<and> a \<noteq> b"
  by (cases a; cases b) (auto simp: negative_def minus_def at_most_def)

lemma minus_number: "a \<noteq> NaN \<Longrightarrow> b \<noteq> NaN \<Longrightarrow> a \<noteq> b \<Longrightarrow> minus b a \<noteq> NaN"
  by (cases a; cases b) (simp_all add: minus_def)

lemma minus_finite [simp]: "minus (Num x) (Num y) = Num (x - y)"
  by (simp add: minus_def)

lemma plus_number: "plus R a b \<noteq> NaN \<Longrightarrow> a \<noteq> NaN \<and> b \<noteq> NaN"
  by (cases a; cases b) (simp_all add: plus_def)

section \<open>Sorting: proofs\<close>

lemma mset_stable_insert: "mset (stable_insert cmp x ys) = add_mset x (mset ys)"
  by (induction ys) auto

lemma mset_stable_sort: "mset (stable_sort cmp xs) = mset xs"
  by (induction xs) (auto simp: stable_sort_def mset_stable_insert)

lemma set_stable_sort: "set (stable_sort cmp xs) = set xs"
  by (metis mset_stable_sort set_mset_mset)

lemma length_stable_sort: "length (stable_sort cmp xs) = length xs"
  by (metis mset_stable_sort size_mset)

lemma stable_sort_Cons: "stable_sort cmp (x # xs) = stable_insert cmp x (stable_sort cmp xs)"
  by (simp add: stable_sort_def)

lemma sorted_wrt_stable_insert:
  assumes tr: "\<And>a b c. a \<in> A \<Longrightarrow> b \<in> A \<Longrightarrow> c \<in> A \<Longrightarrow> R a b \<Longrightarrow> R b c \<Longrightarrow> R a c"
    and stay: "\<And>a b. a \<in> A \<Longrightarrow> b \<in> A \<Longrightarrow> \<not> goes_after cmp a b \<Longrightarrow> R a b"
    and move: "\<And>a b. a \<in> A \<Longrightarrow> b \<in> A \<Longrightarrow> goes_after cmp a b \<Longrightarrow> R b a"
    and "x \<in> A" "set ys \<subseteq> A" "sorted_wrt R ys"
  shows "sorted_wrt R (stable_insert cmp x ys)"
  using assms(4-)
proof (induction ys)
  case Nil
  then show ?case by simp
next
  case (Cons y ys)
  show ?case
  proof (cases "goes_after cmp x y")
    case True
    have "R y x" using move[of x y] True Cons.prems by simp
    moreover have "sorted_wrt R (stable_insert cmp x ys)" using Cons by simp
    moreover have "\<forall>z \<in> set ys. R y z" using Cons.prems by simp
    ultimately show ?thesis
      using True by (simp add: set_mset_mset[symmetric] mset_stable_insert del: set_mset_mset)
  next
    case False
    have xy: "R x y" using stay[of x y] False Cons.prems by simp
    have "R x z" if "z \<in> set ys" for z
      using tr[of x y z] xy that Cons.prems by auto
    then show ?thesis using False xy Cons.prems by simp
  qed
qed

lemma sorted_wrt_stable_sort:
  assumes tr: "\<And>a b c. a \<in> A \<Longrightarrow> b \<in> A \<Longrightarrow> c \<in> A \<Longrightarrow> R a b \<Longrightarrow> R b c \<Longrightarrow> R a c"
    and stay: "\<And>a b. a \<in> A \<Longrightarrow> b \<in> A \<Longrightarrow> \<not> goes_after cmp a b \<Longrightarrow> R a b"
    and move: "\<And>a b. a \<in> A \<Longrightarrow> b \<in> A \<Longrightarrow> goes_after cmp a b \<Longrightarrow> R b a"
    and "set xs \<subseteq> A"
  shows "sorted_wrt R (stable_sort cmp xs)"
  using assms(4)
proof (induction xs)
  case Nil
  show ?case by (simp add: stable_sort_def)
next
  case (Cons x xs)
  have "sorted_wrt R (stable_insert cmp x (stable_sort cmp xs))"
    by (rule sorted_wrt_stable_insert[where A=A, OF tr stay move])
       (use Cons in \<open>auto simp: set_stable_sort\<close>)
  then show ?case by (simp add: stable_sort_Cons)
qed



lemma conforms_sorted:
  assumes "conforms srt cmp xs" "consistent cmp xs"
  shows "srt cmp xs = stable_sort cmp xs"
  using assms unfolding conforms_def by simp


section \<open>Retrieval: proofs\<close>

lemma scoreItem_now:
  "scoreItem R P clock item (query\<lparr> q_now := Some (query_now clock query) \<rparr>) config
     = scoreItem R P clock item query config"
  by (simp add: scoreItem_def query_now_def scopeScore_def query_tags_def query_tokens_def)

lemma search_scored_eq:
  "search_scored R P clock xs query config
     = map (\<lambda>item. \<lparr> sr_item = item, sr_score = scoreItem R P clock item query config \<rparr>)
           (search_filtered xs query)"
  by (simp add: search_scored_def Let_def scoreItem_now)

lemma search_filtered_eq:
  "search_filtered xs query
     = filter (\<lambda>item. q_includeDeleted query = Some True \<or> \<not> deleted item) xs"
  unfolding search_filtered_def by (rule filter_cong) auto

text \<open>Where no score is \<open>NaN\<close> and every \<open>updatedAt\<close> parses, the comparator orders the
  results by descending score and, among equal scores, by descending time.\<close>

lemma search_compare_positive:
  assumes "scored_well P a" "scored_well P b"
  shows "positive (search_compare P a b) \<longleftrightarrow>
           (at_most (sr_score a) (sr_score b) \<and> sr_score a \<noteq> sr_score b) \<or>
           (sr_score a = sr_score b \<and> the (P (updatedAt (sr_item a))) < the (P (updatedAt (sr_item b))))"
proof -
  from assms obtain ta tb where t: "P (updatedAt (sr_item a)) = Some ta" "P (updatedAt (sr_item b)) = Some tb"
    unfolding scored_well_def by auto
  from assms have n: "sr_score a \<noteq> NaN" "sr_score b \<noteq> NaN" unfolding scored_well_def by auto
  show ?thesis
    using n t
    by (auto simp: search_compare_def strict_neq_def positive_minus time_value_def Let_def)
qed

lemma search_compare_negative:
  assumes "scored_well P a" "scored_well P b"
  shows "negative (search_compare P a b) \<longleftrightarrow>
           (at_most (sr_score b) (sr_score a) \<and> sr_score a \<noteq> sr_score b) \<or>
           (sr_score a = sr_score b \<and> the (P (updatedAt (sr_item b))) < the (P (updatedAt (sr_item a))))"
proof -
  from assms obtain ta tb where t: "P (updatedAt (sr_item a)) = Some ta" "P (updatedAt (sr_item b)) = Some tb"
    unfolding scored_well_def by auto
  from assms have n: "sr_score a \<noteq> NaN" "sr_score b \<noteq> NaN" unfolding scored_well_def by auto
  show ?thesis
    using n t
    by (auto simp: search_compare_def strict_neq_def negative_minus time_value_def Let_def)
qed

lemma search_compare_number:
  assumes "scored_well P a" "scored_well P b"
  shows "search_compare P a b \<noteq> NaN"
proof -
  from assms obtain ta tb where t: "P (updatedAt (sr_item a)) = Some ta" "P (updatedAt (sr_item b)) = Some tb"
    unfolding scored_well_def by auto
  from assms have n: "sr_score a \<noteq> NaN" "sr_score b \<noteq> NaN" unfolding scored_well_def by auto
  show ?thesis
    using n t minus_number[of "sr_score a" "sr_score b"]
    by (auto simp: search_compare_def strict_neq_def time_value_def Let_def)
qed

lemma search_compare_consistent:
  assumes "\<forall>r \<in> set rs. scored_well P r"
  shows "consistent (search_compare P) rs"
  unfolding consistent_def
proof (intro conjI ballI impI)
  fix a b assume "a \<in> set rs" "b \<in> set rs"
  with assms have w: "scored_well P a" "scored_well P b" by auto
  show "search_compare P a b \<noteq> NaN" by (rule search_compare_number[OF w])
  show "\<not> negative (search_compare P a a)"
    by (simp add: search_compare_negative[OF w(1) w(1)])
  show "\<not> positive (search_compare P a a)"
    by (simp add: search_compare_positive[OF w(1) w(1)])
  show "negative (search_compare P a b) = positive (search_compare P b a)"
    by (auto simp: search_compare_negative[OF w] search_compare_positive[OF w(2) w(1)])
next
  fix a b c assume "a \<in> set rs" "b \<in> set rs" "c \<in> set rs"
    and h: "\<not> positive (search_compare P a b) \<and> \<not> positive (search_compare P b c)"
  with assms have w: "scored_well P a" "scored_well P b" "scored_well P c" by auto
  then have n: "sr_score a \<noteq> NaN" "sr_score b \<noteq> NaN" "sr_score c \<noteq> NaN"
    unfolding scored_well_def by auto
  from h have ab: "\<not> (at_most (sr_score a) (sr_score b) \<and> sr_score a \<noteq> sr_score b)"
      "\<not> (sr_score a = sr_score b \<and> the (P (updatedAt (sr_item a))) < the (P (updatedAt (sr_item b))))"
    and bc: "\<not> (at_most (sr_score b) (sr_score c) \<and> sr_score b \<noteq> sr_score c)"
      "\<not> (sr_score b = sr_score c \<and> the (P (updatedAt (sr_item b))) < the (P (updatedAt (sr_item c))))"
    by (simp_all add: search_compare_positive[OF w(1) w(2)] search_compare_positive[OF w(2) w(3)])
  show "\<not> positive (search_compare P a c)"
  proof
    assume "positive (search_compare P a c)"
    then consider "at_most (sr_score a) (sr_score c)" "sr_score a \<noteq> sr_score c"
      | "sr_score a = sr_score c" "the (P (updatedAt (sr_item a))) < the (P (updatedAt (sr_item c)))"
      by (auto simp: search_compare_positive[OF w(1) w(3)])
    then show False
    proof cases
      case 1
      show False
      proof (cases "sr_score a = sr_score b")
        case True
        with 1 bc show False by auto
      next
        case False
        with ab(1) have "\<not> at_most (sr_score a) (sr_score b)" by simp
        with at_most_total[OF n(1) n(2)] have ba: "at_most (sr_score b) (sr_score a)" by auto
        from at_most_trans[OF ba 1(1)] have bc': "at_most (sr_score b) (sr_score c)" .
        with bc(1) have "sr_score b = sr_score c" by auto
        with ba 1(1) have "sr_score a = sr_score c" by (auto dest: at_most_antisym)
        with 1(2) show False by simp
      qed
    next
      case 2
      show False
      proof (cases "sr_score a = sr_score b")
        case True
        with 2 ab(2) bc(2) show False by auto
      next
        case False
        with ab(1) have "\<not> at_most (sr_score a) (sr_score b)" by simp
        with at_most_total[OF n(1) n(2)] have ba: "at_most (sr_score b) (sr_score a)" by auto
        with 2(1) have "at_most (sr_score b) (sr_score c)" by simp
        with bc(1) have "sr_score b = sr_score c" by auto
        with 2(1) False show False by simp
      qed
    qed
  qed
qed

lemma scored_well_search:
  assumes "\<forall>item \<in> set (search_filtered xs query).
             scoreItem R P clock item query config \<noteq> NaN \<and> P (updatedAt item) \<noteq> None"
  shows "\<forall>r \<in> set (search_scored R P clock xs query config). scored_well P r"
  using assms by (auto simp: search_scored_eq scored_well_def)

lemma search_ranked_stable:
  assumes "conforms srt (search_compare P) (search_scored R P clock xs query config)"
    and "\<forall>item \<in> set (search_filtered xs query).
             scoreItem R P clock item query config \<noteq> NaN \<and> P (updatedAt item) \<noteq> None"
  shows "search_ranked srt R P clock xs query config
           = stable_sort (search_compare P) (search_scored R P clock xs query config)"
  unfolding search_ranked_def
  by (rule conforms_sorted[OF assms(1)])
     (rule search_compare_consistent[OF scored_well_search[OF assms(2)]])

lemma stable_ranked_items:
  "mset (map sr_item (stable_sort (search_compare P) (search_scored R P clock xs query config)))
     = mset (search_filtered xs query)"
proof -
  have "mset (map sr_item (stable_sort (search_compare P) (search_scored R P clock xs query config)))
      = image_mset sr_item (mset (search_scored R P clock xs query config))"
    by (simp add: mset_stable_sort)
  also have "\<dots> = mset (search_filtered xs query)"
    by (simp add: search_scored_eq image_mset.compositionality comp_def)
  finally show ?thesis .
qed

lemma stable_ranked_scores:
  assumes "r \<in> set (stable_sort (search_compare P) (search_scored R P clock xs query config))"
  shows "sr_score r = scoreItem R P clock (sr_item r) query config \<and>
         sr_item r \<in> set (search_filtered xs query)"
  using assms by (auto simp: search_scored_eq set_stable_sort)

lemma stable_ranked_sorted_score:
  assumes "\<forall>r \<in> set rs. scored_well P r"
  shows "sorted_wrt (\<lambda>a b. at_most (sr_score b) (sr_score a)) (stable_sort (search_compare P) rs)"
proof (rule sorted_wrt_stable_sort[where A="{r. scored_well P r}"])
  show "set rs \<subseteq> {r. scored_well P r}" using assms by auto
next
  fix a b c :: ScoredResult
  assume "at_most (sr_score b) (sr_score a)" "at_most (sr_score c) (sr_score b)"
  then show "at_most (sr_score c) (sr_score a)" by (rule at_most_trans[rotated])
next
  fix a b :: ScoredResult
  assume w: "a \<in> {r. scored_well P r}" "b \<in> {r. scored_well P r}"
  then have n: "sr_score a \<noteq> NaN" "sr_score b \<noteq> NaN" by (auto simp: scored_well_def)
  { assume "\<not> goes_after (search_compare P) a b"
    then have "\<not> (at_most (sr_score a) (sr_score b) \<and> sr_score a \<noteq> sr_score b)"
      using w by (simp add: goes_after_def search_compare_positive)
    then show "at_most (sr_score b) (sr_score a)"
      using at_most_total[OF n] at_most_refl[OF n(1)] by auto }
  { assume "goes_after (search_compare P) a b"
    then have "at_most (sr_score a) (sr_score b)"
      using w at_most_refl[OF n(1)] by (auto simp: goes_after_def search_compare_positive)
    then show "at_most (sr_score a) (sr_score b)" . }
qed

lemma stable_ranked_sorted_ties:
  assumes "\<forall>r \<in> set rs. scored_well P r"
  shows "sorted_wrt (tie_broken P) (stable_sort (search_compare P) rs)"
proof (rule sorted_wrt_stable_sort[where A="{r. scored_well P r}"])
  show "set rs \<subseteq> {r. scored_well P r}" using assms by auto
next
  fix a b c :: ScoredResult
  assume "a \<in> {r. scored_well P r}" "b \<in> {r. scored_well P r}" "c \<in> {r. scored_well P r}"
    and "tie_broken P a b" "tie_broken P b c"
  then show "tie_broken P a c"
    unfolding tie_broken_def
    by (auto dest: at_most_trans at_most_antisym)
next
  fix a b :: ScoredResult
  assume w: "a \<in> {r. scored_well P r}" "b \<in> {r. scored_well P r}"
  then have n: "sr_score a \<noteq> NaN" "sr_score b \<noteq> NaN" by (auto simp: scored_well_def)
  from w obtain ta tb where t: "P (updatedAt (sr_item a)) = Some ta" "P (updatedAt (sr_item b)) = Some tb"
    by (auto simp: scored_well_def)
  { assume "\<not> goes_after (search_compare P) a b"
    then show "tie_broken P a b"
      using w t at_most_total[OF n]
      by (auto simp: goes_after_def search_compare_positive tie_broken_def) }
  { assume "goes_after (search_compare P) a b"
    then show "tie_broken P b a"
      using w t
      by (auto simp: goes_after_def search_compare_positive tie_broken_def) }
qed

lemma searchMemory_take:
  "searchMemory srt R P clock xs query config
     = take (case q_limit query of
               Some l \<Rightarrow> if l > 0 then nat \<lfloor>l\<rfloor> else length (search_ranked srt R P clock xs query config)
             | None \<Rightarrow> length (search_ranked srt R P clock xs query config))
            (search_ranked srt R P clock xs query config)"
  by (auto simp: searchMemory_def Let_def slice0_def split: option.splits)

text \<open>
  Where no score is \<open>NaN\<close> and the \<open>updatedAt\<close> of every remaining item parses, the
  comparator is consistent, and a sort that conforms to the language gives what the
  specification says of a search: the items that are not deleted (all items, when the
  query asks for the deleted ones), each with its score, by descending score and, of
  equal scores, by descending \<open>updatedAt\<close>, cut at the limit.
\<close>

lemma searchMemory_where_consistent:
  assumes "conforms srt (search_compare P) (search_scored R P clock xs query config)"
    and "\<forall>item \<in> set (search_filtered xs query).
           scoreItem R P clock item query config \<noteq> NaN \<and> P (updatedAt item) \<noteq> None"
  shows "mset (map sr_item (search_ranked srt R P clock xs query config))
           = mset (filter (\<lambda>item. q_includeDeleted query = Some True \<or> \<not> deleted item) xs)"
    and "\<forall>r \<in> set (search_ranked srt R P clock xs query config).
           sr_score r = scoreItem R P clock (sr_item r) query config"
    and "sorted_wrt (\<lambda>a b. at_most (sr_score b) (sr_score a))
           (search_ranked srt R P clock xs query config)"
    and "sorted_wrt (tie_broken P) (search_ranked srt R P clock xs query config)"
    and "searchMemory srt R P clock xs query config
           = take (case q_limit query of
                     Some l \<Rightarrow> if l > 0 then nat \<lfloor>l\<rfloor>
                               else length (search_ranked srt R P clock xs query config)
                   | None \<Rightarrow> length (search_ranked srt R P clock xs query config))
                  (search_ranked srt R P clock xs query config)"
proof -
  note st = search_ranked_stable[OF assms]
  note well = scored_well_search[OF assms(2)]
  show "mset (map sr_item (search_ranked srt R P clock xs query config))
           = mset (filter (\<lambda>item. q_includeDeleted query = Some True \<or> \<not> deleted item) xs)"
    unfolding st using stable_ranked_items[of P R clock xs query config]
    by (simp only: search_filtered_eq)
  show "\<forall>r \<in> set (search_ranked srt R P clock xs query config).
           sr_score r = scoreItem R P clock (sr_item r) query config"
    unfolding st using stable_ranked_scores by blast
  show "sorted_wrt (\<lambda>a b. at_most (sr_score b) (sr_score a))
           (search_ranked srt R P clock xs query config)"
    unfolding st by (rule stable_ranked_sorted_score[OF well])
  show "sorted_wrt (tie_broken P) (search_ranked srt R P clock xs query config)"
    unfolding st by (rule stable_ranked_sorted_ties[OF well])
  show "searchMemory srt R P clock xs query config
           = take (case q_limit query of
                     Some l \<Rightarrow> if l > 0 then nat \<lfloor>l\<rfloor>
                               else length (search_ranked srt R P clock xs query config)
                   | None \<Rightarrow> length (search_ranked srt R P clock xs query config))
                  (search_ranked srt R P clock xs query config)"
    by (rule searchMemory_take)
qed

lemmas search_eval = searchMemory_def search_ranked_def search_scored_def search_filtered_def
  search_compare_def strict_neq_def time_value_def scoreItem_def recencyScore_def scopeScore_def
  query_tags_def query_tokens_def query_now_def tagScore_def textScore_def slice0_def Let_def
  exact_ops_def plus_def times_def

lemmas v8_eval = v8_sort_def binary_insert_def insertion_point.simps

text \<open>
  Claim C4 fails where an \<open>updatedAt\<close> does not parse. Three items have the same score;
  the second has a date that does not parse. The comparator of \<open>searchMemory\<close> subtracts
  the two times without a test for \<open>NaN\<close>, which \<open>getTimestamp\<close> and \<open>recencyScore\<close> make,
  and returns \<open>NaN\<close> for each pair with the second item. The sort of V8 compares each item
  with the one before it and leaves the array as it is: the item of 1 January comes
  before the item of 2 January, where the tie-break of the claim puts the later one
  first.
\<close>

theorem searchMemory_unparsable_tie:
  "map (\<lambda>r. (item_id (sr_item r), sr_score r))
     (searchMemory v8_sort exact_ops iso_2025 0
        [memo ''a'' ''2025-01-01T00:00:00.000Z'' ''old'', memo ''b'' ''yesterday'' ''undated'',
         memo ''c'' ''2025-01-02T00:00:00.000Z'' ''new'']
        any_query no_weights)
     = [(''a'', Num (1 / 2)), (''b'', Num (1 / 2)), (''c'', Num (1 / 2))] \<and>
   iso_2025 (updatedAt (memo ''a'' ''2025-01-01T00:00:00.000Z'' ''old'')) = Some 1735689600000 \<and>
   iso_2025 (updatedAt (memo ''b'' ''yesterday'' ''undated'')) = None \<and>
   iso_2025 (updatedAt (memo ''c'' ''2025-01-02T00:00:00.000Z'' ''new'')) = Some 1735776000000 \<and>
   search_compare iso_2025
     \<lparr> sr_item = memo ''b'' ''yesterday'' ''undated'', sr_score = Num (1 / 2) \<rparr>
     \<lparr> sr_item = memo ''a'' ''2025-01-01T00:00:00.000Z'' ''old'', sr_score = Num (1 / 2) \<rparr> = NaN \<and>
   search_compare iso_2025
     \<lparr> sr_item = memo ''c'' ''2025-01-02T00:00:00.000Z'' ''new'', sr_score = Num (1 / 2) \<rparr>
     \<lparr> sr_item = memo ''b'' ''yesterday'' ''undated'', sr_score = Num (1 / 2) \<rparr> = NaN"
  by (simp add: search_eval v8_eval any_query_def no_weights_def memo_def iso_2025_def
      minus_def negative_def)

lemma precedes_take: "precedes a b (take n rs) \<Longrightarrow> precedes a b rs"
  unfolding precedes_def by (auto; metis less_trans nth_take)

lemma precedes_members:
  assumes "precedes a b rs"
  shows "a \<in> sr_item ` set rs \<and> b \<in> sr_item ` set rs"
proof -
  from assms obtain i j where ij: "i < j" "j < length rs" "sr_item (rs ! i) = a" "sr_item (rs ! j) = b"
    unfolding precedes_def by blast
  then have "rs ! i \<in> set rs" "rs ! j \<in> set rs" by auto
  with ij show ?thesis by (metis image_eqI)
qed

lemma precedes_sorted:
  assumes "sorted_wrt (\<lambda>a b. at_most (sr_score b) (sr_score a)) rs" "precedes a b rs"
  shows "\<exists>ra rb. ra \<in> set rs \<and> rb \<in> set rs \<and> sr_item ra = a \<and> sr_item rb = b \<and>
           at_most (sr_score rb) (sr_score ra)"
proof -
  from assms(2) obtain i j where ij: "i < j" "j < length rs" "sr_item (rs ! i) = a" "sr_item (rs ! j) = b"
    unfolding precedes_def by blast
  from assms(1) ij have "at_most (sr_score (rs ! j)) (sr_score (rs ! i))"
    by (simp add: sorted_wrt_iff_nth_less)
  with ij show ?thesis by (intro exI[of _ "rs ! i"] exI[of _ "rs ! j"]) auto
qed

lemma plus_mono_right:
  assumes "monotone_ops R" "at_most a b" "plus R c a \<noteq> NaN" "plus R c b \<noteq> NaN"
  shows "at_most (plus R c a) (plus R c b)"
proof -
  from assms(1) have m: "\<And>x y z. x \<le> y \<Longrightarrow> at_most (add R z x) (add R z y)"
    unfolding monotone_ops_def by blast
  show ?thesis
    using assms(2-) m
    by (cases a; cases b; cases c) (simp_all add: plus_def)
qed

lemma plus_mono_left:
  assumes "monotone_ops R" "at_most a b" "plus R a c \<noteq> NaN" "plus R b c \<noteq> NaN"
  shows "at_most (plus R a c) (plus R b c)"
proof -
  from assms(1) have m: "\<And>x y z. x \<le> y \<Longrightarrow> at_most (add R x z) (add R y z)"
    unfolding monotone_ops_def by blast
  show ?thesis
    using assms(2-) m
    by (cases a; cases b; cases c) (simp_all add: plus_def)
qed

lemma monotone_score:
  assumes ops: "monotone_ops R"
    and imp: "importance B \<le> importance A"
    and s1: "scopeScore query A = scopeScore query B"
    and s2: "tagScore A (query_tags query) = tagScore B (query_tags query)"
    and s3: "recencyScore R P A (halfLifeDays config) (query_now clock query)
              = recencyScore R P B (halfLifeDays config) (query_now clock query)"
    and s4: "textScore A (query_tokens query) = textScore B (query_tokens query)"
    and w: "0 \<le> w_importance config"
    and nA: "scoreItem R P clock A query config \<noteq> NaN"
    and nB: "scoreItem R P clock B query config \<noteq> NaN"
  shows "at_most (scoreItem R P clock B query config) (scoreItem R P clock A query config)"
proof -
  define S where "S = plus R
      (plus R (mul R (w_scope config) (scopeScore query B))
              (mul R (w_tag config) (tagScore B (query_tags query))))
      (times R (Num (w_recency config))
               (recencyScore R P B (halfLifeDays config) (query_now clock query)))"
  define T where "T = mul R (w_text config) (textScore B (query_tokens query))"
  define mA where "mA = mul R (w_importance config) (importance A)"
  define mB where "mB = mul R (w_importance config) (importance B)"
  have sA: "scoreItem R P clock A query config = plus R (plus R S mA) T"
    by (simp add: scoreItem_def S_def T_def mA_def s1 s2 s3 s4)
  have sB: "scoreItem R P clock B query config = plus R (plus R S mB) T"
    by (simp add: scoreItem_def S_def T_def mB_def)
  from ops w imp have m: "at_most mB mA"
    unfolding monotone_ops_def mA_def mB_def by blast
  from nA nB have inner: "plus R S mA \<noteq> NaN" "plus R S mB \<noteq> NaN"
    unfolding sA sB by (auto dest: plus_number)
  have "at_most (plus R S mB) (plus R S mA)"
    by (rule plus_mono_right[OF ops m inner(2) inner(1)])
  then have "at_most (plus R (plus R S mB) T) (plus R (plus R S mA) T)"
    using nA nB unfolding sA sB by (intro plus_mono_left[OF ops]) auto
  then show ?thesis by (simp only: sA sB)
qed

lemma round_near_one_mono: "x \<le> y \<Longrightarrow> round_near_one x \<le> round_near_one y"
  unfolding round_near_one_def by (simp split: if_splits)

lemma monotone_rounded_ops: "monotone_ops rounded_ops"
  unfolding monotone_ops_def rounded_ops_def
  by (simp add: round_near_one_mono mult_left_mono)

lemma monotone_exact_ops: "monotone_ops exact_ops"
  unfolding monotone_ops_def exact_ops_def
  by (simp add: mult_left_mono)

text \<open>
  Claim C9, as amended. Two items \<open>A\<close> and \<open>B\<close> are scored under the same query, weights and
  reference time; the importance of \<open>B\<close> is strictly lower than that of \<open>A\<close>, and their
  other signals (scope, tag, recency, text) are equal. The importance weight is raised,
  all other weights fixed, to a value that is not negative. When no candidate then has
  the score \<open>NaN\<close> and the \<open>updatedAt\<close> of every candidate parses, the score of \<open>B\<close> is at
  most the score of \<open>A\<close>, and \<open>B\<close> comes before \<open>A\<close> in the output of the search only if the
  two scores are equal. The arithmetic is that of any runtime whose rounding is monotone,
  the sort any that conforms to the language.
\<close>

theorem importance_weight_monotone:
  assumes ops: "monotone_ops R"
    and imp: "importance B < importance A"
    and s1: "scopeScore query A = scopeScore query B"
    and s2: "tagScore A (query_tags query) = tagScore B (query_tags query)"
    and s3: "recencyScore R P A (halfLifeDays config) (query_now clock query)
              = recencyScore R P B (halfLifeDays config) (query_now clock query)"
    and s4: "textScore A (query_tokens query) = textScore B (query_tokens query)"
    and w: "0 \<le> w'"
    and srt: "conforms srt (search_compare P)
                (search_scored R P clock xs query (config\<lparr> w_importance := w' \<rparr>))"
    and num: "\<forall>item \<in> set (search_filtered xs query).
                scoreItem R P clock item query (config\<lparr> w_importance := w' \<rparr>) \<noteq> NaN \<and>
                P (updatedAt item) \<noteq> None"
  shows "(A \<in> set (search_filtered xs query) \<and> B \<in> set (search_filtered xs query)
            \<longrightarrow> at_most (scoreItem R P clock B query (config\<lparr> w_importance := w' \<rparr>))
                        (scoreItem R P clock A query (config\<lparr> w_importance := w' \<rparr>))) \<and>
         (precedes B A (searchMemory srt R P clock xs query (config\<lparr> w_importance := w' \<rparr>))
            \<longrightarrow> scoreItem R P clock B query (config\<lparr> w_importance := w' \<rparr>)
                  = scoreItem R P clock A query (config\<lparr> w_importance := w' \<rparr>))"
proof -
  define config' where "config' = config\<lparr> w_importance := w' \<rparr>"
  define rs where "rs = search_ranked srt R P clock xs query config'"
  have le: "at_most (scoreItem R P clock B query config') (scoreItem R P clock A query config')"
    if "A \<in> set (search_filtered xs query)" "B \<in> set (search_filtered xs query)"
  proof (rule monotone_score[OF ops])
    show "importance B \<le> importance A" using imp by simp
    show "0 \<le> w_importance config'" using w by (simp add: config'_def)
    show "recencyScore R P A (halfLifeDays config') (query_now clock query)
        = recencyScore R P B (halfLifeDays config') (query_now clock query)"
      using s3 by (simp add: config'_def)
    show "scoreItem R P clock A query config' \<noteq> NaN" "scoreItem R P clock B query config' \<noteq> NaN"
      using num that unfolding config'_def by auto
  qed (rule s1 s2 s4)+
  have st: "rs = stable_sort (search_compare P) (search_scored R P clock xs query config')"
    unfolding rs_def config'_def by (rule search_ranked_stable[OF srt num])
  have well: "\<forall>r \<in> set (search_scored R P clock xs query config'). scored_well P r"
    unfolding config'_def by (rule scored_well_search[OF num])
  have sorted: "sorted_wrt (\<lambda>a b. at_most (sr_score b) (sr_score a)) rs"
    unfolding st by (rule stable_ranked_sorted_score[OF well])
  have eq: "scoreItem R P clock B query config' = scoreItem R P clock A query config'"
    if "precedes B A (searchMemory srt R P clock xs query config')"
  proof -
    have "precedes B A rs"
      using that unfolding rs_def searchMemory_take[of srt R P clock xs query config']
      by (rule precedes_take)
    from precedes_sorted[OF sorted this]
    obtain rb ra where r: "rb \<in> set rs" "ra \<in> set rs" "sr_item rb = B" "sr_item ra = A"
        "at_most (sr_score ra) (sr_score rb)"
      by blast
    have sb: "sr_score rb = scoreItem R P clock B query config'"
        and inB: "B \<in> set (search_filtered xs query)"
      using stable_ranked_scores[of rb P R clock xs query config'] r unfolding st by auto
    have sa: "sr_score ra = scoreItem R P clock A query config'"
        and inA: "A \<in> set (search_filtered xs query)"
      using stable_ranked_scores[of ra P R clock xs query config'] r unfolding st by auto
    from le[OF inA inB] r(5) show ?thesis
      unfolding sa sb by (rule at_most_antisym)
  qed
  from le eq show ?thesis unfolding config'_def by blast
qed

lemma sample_fields:
  "deleted heavier = False" "deleted lighter = False"
  "updatedAt heavier = ''2025-01-01T00:00:00.000Z''"
  "updatedAt lighter = ''2025-01-01T00:00:00.000Z''"
  "item_id heavier = ''a''" "item_id lighter = ''b''"
  "importance heavier = 1 - 1 / 2 ^ 53" "importance lighter = 1 - 1 / 2 ^ 52"
  "q_includeDeleted any_query = None" "q_limit any_query = None"
  by (simp_all add: heavier_def lighter_def memo_def any_query_def)

lemmas score_eval = scoreItem_def recencyScore_def scopeScore_def query_tags_def query_tokens_def
  query_now_def tagScore_def textScore_def any_query_def no_weights_def rounded_ops_def
  exact_ops_def round_near_one_def plus_def times_def heavier_def lighter_def above_one_def
  memo_def iso_2025_def Let_def

lemma score_heavier_1:
  "scoreItem rounded_ops iso_2025 0 heavier any_query no_weights = Num (1 - 1 / 2 ^ 53)"
  by (simp add: score_eval)

lemma score_lighter_1:
  "scoreItem rounded_ops iso_2025 0 lighter any_query no_weights = Num (1 - 1 / 2 ^ 52)"
  by (simp add: score_eval)

lemma score_heavier_2:
  "scoreItem rounded_ops iso_2025 0 heavier any_query (no_weights\<lparr> w_importance := above_one \<rparr>)
     = Num 1"
  by (simp add: score_eval)

lemma score_lighter_2:
  "scoreItem rounded_ops iso_2025 0 lighter any_query (no_weights\<lparr> w_importance := above_one \<rparr>)
     = Num 1"
  by (simp add: score_eval)

lemma scored_sample_1:
  "search_scored rounded_ops iso_2025 0 [lighter, heavier] any_query no_weights
     = [\<lparr> sr_item = lighter, sr_score = Num (1 - 1 / 2 ^ 52) \<rparr>,
        \<lparr> sr_item = heavier, sr_score = Num (1 - 1 / 2 ^ 53) \<rparr>]"
  by (simp add: search_scored_eq search_filtered_def sample_fields score_heavier_1 score_lighter_1)

lemma scored_sample_2:
  "search_scored rounded_ops iso_2025 0 [lighter, heavier] any_query
       (no_weights\<lparr> w_importance := above_one \<rparr>)
     = [\<lparr> sr_item = lighter, sr_score = Num 1 \<rparr>, \<lparr> sr_item = heavier, sr_score = Num 1 \<rparr>]"
  by (simp add: search_scored_eq search_filtered_def sample_fields score_heavier_2 score_lighter_2)

lemmas compare_eval = search_compare_def strict_neq_def time_value_def sample_fields iso_2025_def
  Let_def

lemma ranked_sample_1:
  "searchMemory v8_sort rounded_ops iso_2025 0 [lighter, heavier] any_query no_weights
     = [\<lparr> sr_item = heavier, sr_score = Num (1 - 1 / 2 ^ 53) \<rparr>,
        \<lparr> sr_item = lighter, sr_score = Num (1 - 1 / 2 ^ 52) \<rparr>]"
  by (simp add: searchMemory_def search_ranked_def scored_sample_1 v8_eval compare_eval slice0_def)

lemma ranked_sample_2:
  "searchMemory v8_sort rounded_ops iso_2025 0 [lighter, heavier] any_query
       (no_weights\<lparr> w_importance := above_one \<rparr>)
     = [\<lparr> sr_item = lighter, sr_score = Num 1 \<rparr>, \<lparr> sr_item = heavier, sr_score = Num 1 \<rparr>]"
  by (simp add: searchMemory_def search_ranked_def scored_sample_2 v8_eval compare_eval slice0_def)

text \<open>
  At the two items \<open>heavier\<close> and \<open>lighter\<close>, with the arithmetic \<open>rounded_ops\<close> and the sort
  of V8: under the weight 1.0000000000000002 both scores are 1, and \<open>lighter\<close>, first in
  the input, comes first.
\<close>

theorem importance_weight_monotone_witness:
  "importance lighter < importance heavier \<and>
   precedes lighter heavier
     (searchMemory v8_sort rounded_ops iso_2025 0 [lighter, heavier] any_query
        (no_weights\<lparr> w_importance := above_one \<rparr>)) \<and>
   at_most
     (scoreItem rounded_ops iso_2025 0 lighter any_query (no_weights\<lparr> w_importance := above_one \<rparr>))
     (scoreItem rounded_ops iso_2025 0 heavier any_query (no_weights\<lparr> w_importance := above_one \<rparr>)) \<and>
   scoreItem rounded_ops iso_2025 0 lighter any_query (no_weights\<lparr> w_importance := above_one \<rparr>)
     = scoreItem rounded_ops iso_2025 0 heavier any_query (no_weights\<lparr> w_importance := above_one \<rparr>)"
proof -
  have imp: "importance lighter < importance heavier"
    by (simp add: sample_fields)
  have s1: "scopeScore any_query heavier = scopeScore any_query lighter"
    by (simp add: scopeScore_def any_query_def)
  have s2: "tagScore heavier (query_tags any_query) = tagScore lighter (query_tags any_query)"
    by (simp add: tagScore_def query_tags_def any_query_def)
  have s3: "recencyScore rounded_ops iso_2025 heavier (halfLifeDays no_weights) (query_now 0 any_query)
      = recencyScore rounded_ops iso_2025 lighter (halfLifeDays no_weights) (query_now 0 any_query)"
    by (simp add: recencyScore_def sample_fields)
  have s4: "textScore heavier (query_tokens any_query) = textScore lighter (query_tokens any_query)"
    by (simp add: textScore_def query_tokens_def any_query_def)
  have w: "0 \<le> above_one"
    by (simp add: above_one_def)
  have srt: "conforms v8_sort (search_compare iso_2025)
      (search_scored rounded_ops iso_2025 0 [lighter, heavier] any_query
         (no_weights\<lparr> w_importance := above_one \<rparr>))"
    by (simp add: conforms_def scored_sample_2 v8_eval stable_sort_def goes_after_def compare_eval)
  have num: "\<forall>item \<in> set (search_filtered [lighter, heavier] any_query).
      scoreItem rounded_ops iso_2025 0 item any_query (no_weights\<lparr> w_importance := above_one \<rparr>) \<noteq> NaN \<and>
      iso_2025 (updatedAt item) \<noteq> None"
    by (simp add: search_filtered_def sample_fields score_heavier_2 score_lighter_2 iso_2025_def)
  have members: "heavier \<in> set (search_filtered [lighter, heavier] any_query) \<and>
      lighter \<in> set (search_filtered [lighter, heavier] any_query)"
    by (simp add: search_filtered_def sample_fields)
  have before: "precedes lighter heavier
     (searchMemory v8_sort rounded_ops iso_2025 0 [lighter, heavier] any_query
        (no_weights\<lparr> w_importance := above_one \<rparr>))"
    unfolding ranked_sample_2 precedes_def by (intro exI[of _ 0] exI[of _ 1]) simp
  from importance_weight_monotone[OF monotone_rounded_ops imp s1 s2 s3 s4 w srt num]
    imp before members
  show ?thesis by blast
qed

text \<open>
  The claim C9 as stated fails where rounding makes the scores equal. The importances
  of \<open>heavier\<close> and \<open>lighter\<close> are 0.9999999999999999 and 0.9999999999999998, their other
  signals are equal, and \<open>lighter\<close> is first in the input. Under the importance weight 1
  the scores are the importances, and \<open>heavier\<close> comes first. Under the importance
  weight 1.0000000000000002 the two products are \<open>1 + 1 / 2 ^ 53 - 1 / 2 ^ 105\<close> and
  \<open>1 - 1 / 2 ^ 104\<close>; both round to 1, the \<open>updatedAt\<close> are equal, and \<open>lighter\<close> comes
  first, as in the input.
\<close>

theorem importance_weight_rounding_counterexample:
  "importance lighter < importance heavier \<and>
   scopeScore any_query heavier = scopeScore any_query lighter \<and>
   tagScore heavier (query_tags any_query) = tagScore lighter (query_tags any_query) \<and>
   recencyScore rounded_ops iso_2025 heavier (halfLifeDays no_weights) (query_now 0 any_query)
     = recencyScore rounded_ops iso_2025 lighter (halfLifeDays no_weights) (query_now 0 any_query) \<and>
   textScore heavier (query_tokens any_query) = textScore lighter (query_tokens any_query) \<and>
   w_importance no_weights < above_one \<and>
   map (\<lambda>r. (item_id (sr_item r), sr_score r))
     (searchMemory v8_sort rounded_ops iso_2025 0 [lighter, heavier] any_query no_weights)
     = [(''a'', Num (1 - 1 / 2 ^ 53)), (''b'', Num (1 - 1 / 2 ^ 52))] \<and>
   precedes heavier lighter
     (searchMemory v8_sort rounded_ops iso_2025 0 [lighter, heavier] any_query no_weights) \<and>
   above_one * importance heavier = 1 + 1 / 2 ^ 53 - 1 / 2 ^ 105 \<and>
   above_one * importance lighter = 1 - 1 / 2 ^ 104 \<and>
   map (\<lambda>r. (item_id (sr_item r), sr_score r))
     (searchMemory v8_sort rounded_ops iso_2025 0 [lighter, heavier] any_query
        (no_weights\<lparr> w_importance := above_one \<rparr>))
     = [(''b'', Num 1), (''a'', Num 1)] \<and>
   precedes lighter heavier
     (searchMemory v8_sort rounded_ops iso_2025 0 [lighter, heavier] any_query
        (no_weights\<lparr> w_importance := above_one \<rparr>))"
proof -
  have p1: "precedes heavier lighter
     (searchMemory v8_sort rounded_ops iso_2025 0 [lighter, heavier] any_query no_weights)"
    unfolding ranked_sample_1 precedes_def by (intro exI[of _ 0] exI[of _ 1]) simp
  have p2: "precedes lighter heavier
     (searchMemory v8_sort rounded_ops iso_2025 0 [lighter, heavier] any_query
        (no_weights\<lparr> w_importance := above_one \<rparr>))"
    unfolding ranked_sample_2 precedes_def by (intro exI[of _ 0] exI[of _ 1]) simp
  have signals: "importance lighter < importance heavier"
    "scopeScore any_query heavier = scopeScore any_query lighter"
    "tagScore heavier (query_tags any_query) = tagScore lighter (query_tags any_query)"
    "recencyScore rounded_ops iso_2025 heavier (halfLifeDays no_weights) (query_now 0 any_query)
       = recencyScore rounded_ops iso_2025 lighter (halfLifeDays no_weights) (query_now 0 any_query)"
    "textScore heavier (query_tokens any_query) = textScore lighter (query_tokens any_query)"
    "w_importance no_weights < above_one"
    by (simp_all add: sample_fields scopeScore_def tagScore_def textScore_def
        recencyScore_def query_tags_def query_tokens_def any_query_def no_weights_def above_one_def)
  have products: "above_one * importance heavier = 1 + 1 / 2 ^ 53 - 1 / 2 ^ 105"
    "above_one * importance lighter = 1 - 1 / 2 ^ 104"
    by (simp_all add: sample_fields above_one_def)
  show ?thesis
    using signals products p1 p2 by (simp add: ranked_sample_1 ranked_sample_2 sample_fields)
qed

section \<open>Pruning: proofs\<close>










lemma expected_actions_dedupe: "filter is_dedupe_action (expected_actions H seen x) = expected_actions H seen x"
  by (auto simp: expected_actions_def is_dedupe_action_def merge_action_def delete_action_def
      split: option.splits)

lemma dedupe_expected_dedupe: "filter is_dedupe_action (dedupe_expected H seen xs) = dedupe_expected H seen xs"
  by (induction xs arbitrary: seen) (auto simp: expected_actions_dedupe)



















section \<open>The derived index: proofs\<close>

subsection \<open>Buckets\<close>

lemma drop_id_strip: "drop_id ident b = strip_buckets {ident} b"
  by (rule ext) (simp add: drop_id_def strip_buckets_def Let_def split: option.splits)

lemma strip_buckets_empty [simp]: "strip_buckets A Map.empty = Map.empty"
  by (rule ext) (simp add: strip_buckets_def)

lemma strip_buckets_twice: "strip_buckets A (strip_buckets B b) = strip_buckets (A \<union> B) b"
proof (rule ext)
  fix k
  have "filter (\<lambda>e. e \<notin> A) (filter (\<lambda>e. e \<notin> B) ids) = filter (\<lambda>e. e \<notin> A \<union> B) ids" for ids :: "string list"
    by (induction ids) auto
  then show "strip_buckets A (strip_buckets B b) k = strip_buckets (A \<union> B) b k"
    by (auto simp: strip_buckets_def Let_def filter_empty_conv split: option.splits)
qed

lemma strip_push_other:
  assumes "ident \<notin> A"
  shows "strip_buckets A (push_plain b k ident) = push_plain (strip_buckets A b) k ident"
  using assms
  by (intro ext) (auto simp: strip_buckets_def push_plain_def Let_def split: option.splits)

lemma strip_push_same:
  assumes "ident \<in> A"
  shows "strip_buckets A (push_plain b k ident) = strip_buckets A b"
  using assms
  by (intro ext) (auto simp: strip_buckets_def push_plain_def Let_def split: option.splits)

lemma push_plain_nonempty [simp]: "push_plain b k ident \<noteq> Map.empty"
  by (simp add: push_plain_def)

subsection \<open>Nested buckets\<close>

lemma strip_nested_twice: "strip_nested A (strip_nested B n) = strip_nested (A \<union> B) n"
proof (rule ext)
  fix s
  show "strip_nested A (strip_nested B n) s = strip_nested (A \<union> B) n s"
  proof (cases "n s")
    case None
    then show ?thesis by (simp add: strip_nested_def)
  next
    case (Some inner)
    show ?thesis
    proof (cases "strip_buckets B inner = Map.empty")
      case True
      then have "strip_buckets (A \<union> B) inner = Map.empty"
        using strip_buckets_twice[of A B inner] by simp
      with True Some show ?thesis by (simp add: strip_nested_def)
    next
      case False
      with Some show ?thesis by (simp add: strip_nested_def strip_buckets_twice)
    qed
  qed
qed

lemma strip_nested_inner:
  "(case strip_nested A n s of None \<Rightarrow> Map.empty | Some inner \<Rightarrow> inner)
     = strip_buckets A (case n s of None \<Rightarrow> Map.empty | Some inner \<Rightarrow> inner)"
  by (auto simp: strip_nested_def split: option.splits)

lemma strip_nested_push_other:
  assumes "ident \<notin> A"
  shows "strip_nested A (n(s \<mapsto> push_plain (case n s of None \<Rightarrow> Map.empty | Some inner \<Rightarrow> inner) k ident))
     = (strip_nested A n)(s \<mapsto> push_plain (case strip_nested A n s of None \<Rightarrow> Map.empty | Some inner \<Rightarrow> inner) k ident)"
proof (rule ext)
  fix t
  show "strip_nested A (n(s \<mapsto> push_plain (case n s of None \<Rightarrow> Map.empty | Some inner \<Rightarrow> inner) k ident)) t
     = ((strip_nested A n)(s \<mapsto> push_plain (case strip_nested A n s of None \<Rightarrow> Map.empty | Some inner \<Rightarrow> inner) k ident)) t"
  proof (cases "t = s")
    case True
    then show ?thesis
      unfolding strip_nested_inner
      by (simp add: strip_nested_def strip_push_other[OF assms])
  next
    case False
    then show ?thesis by (simp add: strip_nested_def)
  qed
qed

lemma strip_nested_push_same:
  assumes "ident \<in> A"
  shows "strip_nested A (n(s \<mapsto> push_plain (case n s of None \<Rightarrow> Map.empty | Some inner \<Rightarrow> inner) k ident))
     = strip_nested A n"
proof (rule ext)
  fix t
  show "strip_nested A (n(s \<mapsto> push_plain (case n s of None \<Rightarrow> Map.empty | Some inner \<Rightarrow> inner) k ident)) t
     = strip_nested A n t"
  proof (cases "t = s")
    case True
    then show ?thesis
      by (auto simp: strip_nested_def strip_push_same[OF assms] split: option.splits)
  next
    case False
    then show ?thesis by (simp add: strip_nested_def)
  qed
qed

subsection \<open>The index\<close>

lemma removeIdFromIndex_strip: "removeIdFromIndex index ident = strip_index {ident} index"
proof -
  have "(\<lambda>s. case byScopeTag index s of
              None \<Rightarrow> None
            | Some inner \<Rightarrow>
                (let inner' = drop_id ident inner in if dom inner' = {} then None else Some inner'))
      = strip_nested {ident} (byScopeTag index)"
    by (rule ext) (simp add: strip_nested_def drop_id_strip Let_def split: option.splits)
  then show ?thesis
    by (simp add: removeIdFromIndex_def strip_index_def drop_id_strip)
qed

lemma strip_index_twice: "strip_index A (strip_index B index) = strip_index (A \<union> B) index"
  by (simp add: strip_index_def strip_buckets_twice strip_nested_twice)

lemma strip_add_tag_other:
  assumes "item_id item \<notin> A"
  shows "strip_index A (add_tag_plain item tag index) = add_tag_plain item tag (strip_index A index)"
  using assms
  by (simp add: strip_index_def add_tag_plain_def strip_push_other strip_nested_push_other)

lemma strip_add_tag_same:
  assumes "item_id item \<in> A"
  shows "strip_index A (add_tag_plain item tag index) = strip_index A index"
  using assms
  by (simp add: strip_index_def add_tag_plain_def strip_push_same strip_nested_push_same)

lemma strip_fold_tags_other:
  assumes "item_id item \<notin> A"
  shows "strip_index A (fold (add_tag_plain item) ts index) = fold (add_tag_plain item) ts (strip_index A index)"
  by (induction ts arbitrary: index) (simp_all add: strip_add_tag_other[OF assms])

lemma strip_fold_tags_same:
  assumes "item_id item \<in> A"
  shows "strip_index A (fold (add_tag_plain item) ts index) = strip_index A index"
  by (induction ts arbitrary: index) (simp_all add: strip_add_tag_same[OF assms])

lemma strip_addId_other:
  assumes "item_id item \<notin> A"
  shows "strip_index A (addIdToIndex_plain index item) = addIdToIndex_plain (strip_index A index) item"
proof -
  have "strip_index A (index\<lparr> byScope := push_plain (byScope index) (scope item) (item_id item) \<rparr>)
      = (strip_index A index)\<lparr> byScope := push_plain (byScope (strip_index A index)) (scope item) (item_id item) \<rparr>"
    using assms by (simp add: strip_index_def strip_push_other)
  then show ?thesis
    by (simp add: addIdToIndex_plain_def strip_fold_tags_other[OF assms])
qed

lemma strip_addId_same:
  assumes "item_id item \<in> A"
  shows "strip_index A (addIdToIndex_plain index item) = strip_index A index"
proof -
  have "strip_index A (index\<lparr> byScope := push_plain (byScope index) (scope item) (item_id item) \<rparr>)
      = strip_index A index"
    using assms by (simp add: strip_index_def strip_push_same)
  then show ?thesis
    by (simp add: addIdToIndex_plain_def strip_fold_tags_same[OF assms])
qed

lemma index_step_strip:
  "index_step item index
     = (if \<not> deleted item then addIdToIndex_plain (strip_index {item_id item} index) item
        else strip_index {item_id item} index)"
  by (simp add: index_step_def removeIdFromIndex_strip)

lemma strip_step_other:
  assumes "item_id item \<notin> A"
  shows "strip_index A (index_step item index) = index_step item (strip_index A index)"
  using assms
  by (simp add: index_step_strip strip_addId_other strip_index_twice Un_commute)

lemma strip_step_same:
  assumes "item_id item \<in> A"
  shows "strip_index A (index_step item index) = strip_index A index"
  using assms
  by (simp add: index_step_strip strip_addId_same strip_index_twice insert_absorb)

lemma step_strip_minus:
  "index_step item (strip_index A index) = index_step item (strip_index (A - {item_id item}) index)"
  by (simp add: index_step_strip strip_index_twice)

lemma step_strip_absorb:
  assumes "A \<subseteq> {item_id item}"
  shows "index_step item (strip_index A index) = index_step item index"
proof -
  have e: "{item_id item} \<union> A = {item_id item}" using assms by auto
  show ?thesis by (simp only: index_step_strip strip_index_twice e)
qed

lemma loop_strip:
  assumes "xs \<noteq> []" "A \<subseteq> item_id ` set xs"
  shows "fold index_step xs (strip_index A index) = fold index_step xs index"
  using assms
proof (induction xs arbitrary: A index rule: list_nonempty_induct)
  case (single x)
  then show ?case by (simp add: step_strip_absorb)
next
  case (cons x xs)
  have sub: "A - {item_id x} \<subseteq> item_id ` set xs" using cons.prems by auto
  have "fold index_step (x # xs) (strip_index A index)
      = fold index_step xs (index_step x (strip_index (A - {item_id x}) index))"
    using step_strip_minus[of x A index] by simp
  also have "\<dots> = fold index_step xs (strip_index (A - {item_id x}) (index_step x index))"
    by (simp add: strip_step_other)
  also have "\<dots> = fold index_step xs (index_step x index)"
    by (rule cons.IH[OF sub])
  finally show ?case by simp
qed

lemma strip_loop:
  assumes "item_id ` set xs \<subseteq> A"
  shows "strip_index A (fold index_step xs index) = strip_index A index"
  using assms
proof (induction xs arbitrary: index)
  case Nil
  show ?case by simp
next
  case (Cons x xs)
  then have "strip_index A (fold index_step xs (index_step x index)) = strip_index A (index_step x index)"
    by simp
  also have "\<dots> = strip_index A index"
    using Cons.prems by (simp add: strip_step_same)
  finally show ?case by simp
qed

lemma dom_items_by_id: "dom (items_by_id xs) = item_id ` set xs"
proof -
  have "dom (fold (\<lambda>item byId. byId(item_id item \<mapsto> item)) xs m) = dom m \<union> item_id ` set xs"
    for m :: "string \<rightharpoonup> MemoryItem"
    by (induction xs arbitrary: m) auto
  then show ?thesis by (simp add: items_by_id_def)
qed

subsection \<open>Sorting keeps the order of ids that compare equal\<close>

lemma filter_stable_insert:
  assumes "Q x \<Longrightarrow> \<forall>y \<in> set ys. Q y \<longrightarrow> \<not> goes_after cmp x y"
  shows "filter Q (stable_insert cmp x ys) = (if Q x then x # filter Q ys else filter Q ys)"
  using assms by (induction ys) auto

lemma filter_stable_sort:
  assumes "\<And>x y. Q x \<Longrightarrow> Q y \<Longrightarrow> \<not> goes_after cmp x y"
  shows "filter Q (stable_sort cmp xs) = filter Q xs"
proof (induction xs)
  case Nil
  show ?case by (simp add: stable_sort_def)
next
  case (Cons x xs)
  have "filter Q (stable_insert cmp x (stable_sort cmp xs))
      = (if Q x then x # filter Q (stable_sort cmp xs) else filter Q (stable_sort cmp xs))"
    by (rule filter_stable_insert) (use assms in auto)
  with Cons show ?case by (simp add: stable_sort_def)
qed

lemma unknown_ids_equal:
  assumes "itemsById a = None" "itemsById b = None"
  shows "\<not> goes_after (updated_compare P itemsById) a b"
  using assms by (simp add: goes_after_def updated_compare_def id_time_def)

lemma sortByUpdated_filter:
  assumes "dom itemsById \<subseteq> A"
  shows "filter (\<lambda>e. e \<notin> A) (sortByUpdated stable_sort P itemsById ids) = filter (\<lambda>e. e \<notin> A) ids"
  unfolding sortByUpdated_def
proof (rule filter_stable_sort)
  fix a b assume "a \<notin> A" "b \<notin> A"
  with assms have "itemsById a = None" "itemsById b = None" by auto
  then show "\<not> goes_after (updated_compare P itemsById) a b" by (rule unknown_ids_equal)
qed

lemma sortByUpdated_empty: "sortByUpdated stable_sort P Map.empty ids = ids"
proof -
  have "filter (\<lambda>e. True) (stable_sort (updated_compare P Map.empty) ids) = filter (\<lambda>e. True) ids"
    by (rule filter_stable_sort) (simp add: unknown_ids_equal)
  then show ?thesis by (simp add: sortByUpdated_def)
qed

lemma strip_sorted_buckets:
  assumes "dom itemsById \<subseteq> A"
  shows "strip_buckets A (\<lambda>k. map_option (sortByUpdated stable_sort P itemsById) (b k))
     = strip_buckets A b"
  by (rule ext) (simp add: strip_buckets_def sortByUpdated_filter[OF assms] split: option.splits)

lemma strip_sorted_nested:
  assumes "dom itemsById \<subseteq> A"
  shows "strip_nested A
           (\<lambda>s. map_option (\<lambda>inner k. map_option (sortByUpdated stable_sort P itemsById) (inner k)) (n s))
     = strip_nested A n"
  by (rule ext) (simp add: strip_nested_def strip_sorted_buckets[OF assms] split: option.splits)

lemma strip_sortIndex:
  assumes "dom itemsById \<subseteq> A"
  shows "strip_index A (sortIndex stable_sort P index itemsById) = strip_index A index"
  by (simp add: strip_index_def sortIndex_def strip_sorted_buckets[OF assms]
      strip_sorted_nested[OF assms])

lemma sortIndex_empty: "sortIndex stable_sort P index Map.empty = index"
proof -
  have 0: "sortByUpdated stable_sort P Map.empty = (\<lambda>ids. ids)"
    by (rule ext) (rule sortByUpdated_empty)
  have 1: "(\<lambda>k. map_option (sortByUpdated stable_sort P Map.empty) (b k)) = b" for b :: buckets
    by (rule ext) (simp add: 0 option.map_ident)
  have 2: "(\<lambda>s. map_option (\<lambda>inner k. map_option (sortByUpdated stable_sort P Map.empty) (inner k)) (n s)) = n"
    for n :: "string \<rightharpoonup> buckets"
    by (rule ext) (simp add: 1 option.map_ident)
  show ?thesis by (simp add: sortIndex_def 1 2 option.map_ident)
qed

text \<open>The loop takes the ids of the items out of the index before it adds them: it does
  not see how the last update sorted them.\<close>

lemma loop_sorted:
  "fold index_step xs (sortIndex stable_sort P (fold index_step xs index) (items_by_id xs))
     = fold index_step xs index"
proof (cases "xs = []")
  case True
  then show ?thesis by (simp add: items_by_id_def sortIndex_empty)
next
  case False
  define A where "A = item_id ` set xs"
  define once where "once = fold index_step xs index"
  have d: "dom (items_by_id xs) \<subseteq> A" unfolding A_def by (simp add: dom_items_by_id)
  have "fold index_step xs (sortIndex stable_sort P once (items_by_id xs))
      = fold index_step xs (strip_index A (sortIndex stable_sort P once (items_by_id xs)))"
    by (rule loop_strip[OF False, symmetric]) (simp add: A_def)
  also have "\<dots> = fold index_step xs (strip_index A once)"
    by (simp add: strip_sortIndex[OF d])
  also have "\<dots> = fold index_step xs (strip_index A index)"
    unfolding once_def by (subst strip_loop) (simp_all add: A_def)
  also have "\<dots> = once"
    unfolding once_def by (rule loop_strip[OF False]) (simp add: A_def)
  finally show ?thesis by (simp add: once_def)
qed

lemma update_plain_twice: "update_plain P (update_plain P index xs) xs = update_plain P index xs"
  by (simp add: update_plain_def loop_sorted)

subsection \<open>A sort that conforms\<close>



subsection \<open>Keys that \<open>Object.prototype\<close> does not have\<close>

lemma push_id_plain:
  "k \<notin> set object_prototype_keys \<Longrightarrow> push_id callee b k ident = Done (push_plain b k ident)"
  by (simp add: push_id_def push_plain_def split: option.splits)

lemma add_tag_plain:
  assumes "scope item \<notin> set object_prototype_keys" "tag \<notin> set object_prototype_keys"
  shows "add_tag item tag index = Done (add_tag_plain item tag index)"
  using assms
  by (simp add: add_tag_def add_tag_plain_def push_id_plain then_do_def split: option.splits)

lemma add_tags_plain:
  assumes "scope item \<notin> set object_prototype_keys"
    and "\<forall>tag \<in> set ts. tag \<notin> set object_prototype_keys"
  shows "add_tags item ts index = Done (fold (add_tag_plain item) ts index)"
  using assms(2)
  by (induction ts arbitrary: index) (simp_all add: add_tag_plain[OF assms(1)] then_do_def)

lemma addIdToIndex_plain:
  assumes "scope item \<notin> set object_prototype_keys"
    and "\<forall>tag \<in> set (tags item). tag \<notin> set object_prototype_keys"
  shows "addIdToIndex index item = Done (addIdToIndex_plain index item)"
  by (simp add: addIdToIndex_def addIdToIndex_plain_def push_id_plain[OF assms(1)]
      add_tags_plain[OF assms] then_do_def)


subsection \<open>The time stamp of the index is not read\<close>



















end
